theory Spec2Isabelle
  imports Main "HOL-Library.AList" "HOL-Library.Sublist"
begin

section \<open>redux-auto-slice: the transitions of \<^verbatim>\<open>src/index.ts\<close>\<close>

text \<open>
  The library builds reducers \<^verbatim>\<open>(state, action) => newState | void\<close> from a list of
  operation names. The reducers are dynamically typed: a payload is whatever the caller
  dispatched. The embedding therefore works on a datatype of JavaScript values and
  makes every \<^verbatim>\<open>TypeError\<close> of the source a branch of the model.

  The values are the plain data a store holds: \<^verbatim>\<open>undefined\<close>, \<^verbatim>\<open>null\<close>, booleans,
  numbers, strings, arrays and plain objects. A number is an integer; the conversion
  of a number to a string and the addition of numbers are modelled on the integers of
  magnitude below \<^verbatim>\<open>2^53\<close>, where the doubles of the source are exact, and
  are left open beyond. An array is a dense sequence; an object is the list of its own
  data properties in insertion order. An array and an object carry the address that
  gives them their identity, since \<^verbatim>\<open>===\<close> compares objects by reference.

  The slice runs its reducers on a draft of the state: an element of the state that
  is an object or an array reaches a callback as a proxy of the element, which is
  never \<^verbatim>\<open>===\<close> a value of the payload; a primitive element is itself.

  The record \<^verbatim>\<open>state.entities\<close> is a plain object: a read of a key it does not own
  finds the member of \<^verbatim>\<open>Object.prototype\<close> of that name, when there is one.
\<close>

type_synonym ref = nat

datatype jsval =
    JUndefined
  | JNull
  | JBool bool
  | JNum int
  | JStr string
  | JArr ref "jsval list"
  | JObj ref "(string \<times> jsval) list"

text \<open>
  \<open>TypeError\<close> is the exception the reducers raise on these values.
  \<open>Not_modelled\<close> marks the places where the source leaves the modelled values, and
  the model says nothing of what it does there: a write to an array's \<^verbatim>\<open>length\<close> or
  to a non-index key of an array; an addition whose result is \<^verbatim>\<open>NaN\<close>; the string
  of a number, and a sum, of magnitude \<^verbatim>\<open>2^53\<close> or more; a write to the
  key \<^verbatim>\<open>__proto__\<close> of a record that does not own it, which goes to the accessor of
  the prototype; a read of \<^verbatim>\<open>arguments\<close> or \<^verbatim>\<open>caller\<close> of a built-in function.
\<close>

datatype js_error = TypeError | Not_modelled

datatype js_type = TUndefined | TObject | TBoolean | TNumber | TString

fun typeof :: "jsval \<Rightarrow> js_type" where
  "typeof JUndefined = TUndefined"
| "typeof JNull = TObject"
| "typeof (JBool b) = TBoolean"
| "typeof (JNum n) = TNumber"
| "typeof (JStr s) = TString"
| "typeof (JArr r xs) = TObject"
| "typeof (JObj r fs) = TObject"

text \<open>\<^verbatim>\<open>v ?? d\<close> takes \<open>d\<close> exactly when \<open>v\<close> is \<^verbatim>\<open>null\<close> or \<^verbatim>\<open>undefined\<close>.\<close>

fun nullish :: "jsval \<Rightarrow> bool" where
  "nullish JUndefined = True"
| "nullish JNull = True"
| "nullish v = False"


text \<open>The truth value of a value in a condition (\<^verbatim>\<open>if (existing)\<close>).\<close>

fun truthy :: "jsval \<Rightarrow> bool" where
  "truthy JUndefined = False"
| "truthy JNull = False"
| "truthy (JBool b) = b"
| "truthy (JNum n) = (n \<noteq> 0)"
| "truthy (JStr s) = (s \<noteq> [])"
| "truthy (JArr r xs) = True"
| "truthy (JObj r fs) = True"

text \<open>
  \<^verbatim>\<open>a === b\<close>: primitives by value, arrays and objects by reference. Without
  \<^verbatim>\<open>NaN\<close> the membership test of a \<^verbatim>\<open>Set\<close> (SameValueZero) is the same relation.
\<close>

fun strict_eq :: "jsval \<Rightarrow> jsval \<Rightarrow> bool" where
  "strict_eq (JArr r xs) b = (case b of JArr r' ys \<Rightarrow> r = r' | _ \<Rightarrow> False)"
| "strict_eq (JObj r fs) b = (case b of JObj r' gs \<Rightarrow> r = r' | _ \<Rightarrow> False)"
| "strict_eq a b = (a = b)"

text \<open>
  \<^verbatim>\<open>item === v\<close> where \<open>item\<close> was read from the draft of the state, or from an
  element read from it, and \<open>v\<close> comes from the payload: an object or an array is
  read as its proxy, which is no value of the payload.
\<close>

fun draft_eq :: "jsval \<Rightarrow> jsval \<Rightarrow> bool" where
  "draft_eq (JArr r xs) v = False"
| "draft_eq (JObj r fs) v = False"
| "draft_eq item v = strict_eq item v"

subsection \<open>Strings of numbers, \<^verbatim>\<open>String(v)\<close>\<close>

text \<open>
  The integers on which the doubles of the source are exact. \<open>show_int\<close> writes the
  decimal digits of an integer; on these integers that is \<^verbatim>\<open>String(n)\<close>.
\<close>

definition safe_int :: "int \<Rightarrow> bool" where
  "safe_int n = (- 9007199254740992 < n \<and> n < 9007199254740992)"

definition digit_char :: "nat \<Rightarrow> char" where
  "digit_char d = ''0123456789'' ! (d mod 10)"

function show_nat :: "nat \<Rightarrow> string" where
  "show_nat n =
     (if n < 10 then [digit_char n] else show_nat (n div 10) @ [digit_char (n mod 10)])"
  by pat_completeness auto
termination
  by (relation "measure id") auto

declare show_nat.simps [simp del]

definition show_int :: "int \<Rightarrow> string" where
  "show_int i = (if i < 0 then CHR ''-'' # show_nat (nat (- i)) else show_nat (nat i))"

fun join_comma :: "string list \<Rightarrow> string" where
  "join_comma [] = []"
| "join_comma [s] = s"
| "join_comma (s # t # ss) = s @ '','' @ join_comma (t # ss)"

text \<open>Running a list of computations in order, stopping at the first exception.\<close>

fun sequence_err :: "('e + 'a) list \<Rightarrow> 'e + 'a list" where
  "sequence_err [] = Inr []"
| "sequence_err (x # xs) =
     (case x of
        Inl e \<Rightarrow> Inl e
      | Inr v \<Rightarrow> (case sequence_err xs of Inl e \<Rightarrow> Inl e | Inr vs \<Rightarrow> Inr (v # vs)))"

text \<open>
  \<^verbatim>\<open>String(v)\<close>, which is \<^verbatim>\<open>toId\<close>. An array joins its elements with commas, \<^verbatim>\<open>null\<close>
  and \<^verbatim>\<open>undefined\<close> elements as the empty string. A plain object prints as
  \<^verbatim>\<open>[object Object]\<close>; when it has an own data property \<^verbatim>\<open>toString\<close> the conversion
  finds no callable method and raises.
\<close>

fun to_str :: "jsval \<Rightarrow> js_error + string" where
  "to_str JUndefined = Inr ''undefined''"
| "to_str JNull = Inr ''null''"
| "to_str (JBool b) = Inr (if b then ''true'' else ''false'')"
| "to_str (JNum n) = (if safe_int n then Inr (show_int n) else Inl Not_modelled)"
| "to_str (JStr s) = Inr s"
| "to_str (JArr r xs) =
     (case sequence_err (map (\<lambda>x. if nullish x then Inr [] else to_str x) xs) of
        Inl e \<Rightarrow> Inl e
      | Inr ss \<Rightarrow> Inr (join_comma ss))"
| "to_str (JObj r fs) =
     (if ''toString'' \<in> fst ` set fs then Inl TypeError else Inr ''[object Object]'')"

definition toId :: "jsval \<Rightarrow> js_error + string" where
  "toId v = to_str v"

subsection \<open>Properties\<close>

text \<open>The own properties of an array and of a string that have an index as key.\<close>

definition index_props :: "'a list \<Rightarrow> (string \<times> 'a) list" where
  "index_props xs = zip (map show_nat [0..<length xs]) xs"

text \<open>
  \<open>prop_of v k\<close> is \<^verbatim>\<open>v[k]\<close> for a value \<open>v\<close> that is not \<^verbatim>\<open>null\<close> or \<^verbatim>\<open>undefined\<close>;
  \<open>get_prop\<close> adds the \<^verbatim>\<open>TypeError\<close> of reading a property of \<^verbatim>\<open>null\<close> or
  \<^verbatim>\<open>undefined\<close>.
\<close>

fun prop_of :: "jsval \<Rightarrow> string \<Rightarrow> jsval" where
  "prop_of (JObj r fs) k = (case map_of fs k of None \<Rightarrow> JUndefined | Some v \<Rightarrow> v)"
| "prop_of (JArr r xs) k =
     (if k = ''length'' then JNum (int (length xs))
      else case map_of (index_props xs) k of None \<Rightarrow> JUndefined | Some v \<Rightarrow> v)"
| "prop_of (JStr s) k =
     (if k = ''length'' then JNum (int (length s))
      else case map_of (index_props s) k of None \<Rightarrow> JUndefined | Some c \<Rightarrow> JStr [c])"
| "prop_of v k = JUndefined"

definition get_prop :: "jsval \<Rightarrow> string \<Rightarrow> js_error + jsval" where
  "get_prop v k = (if nullish v then Inl TypeError else Inr (prop_of v k))"

text \<open>
  \<^verbatim>\<open>k in v\<close>. The operator raises on a value that is not an object. An inherited
  member would also answer true; every test of the source that follows an \<^verbatim>\<open>in\<close>
  asks for a number, a boolean or a string under the key, which no inherited member is.
\<close>

fun has_prop :: "jsval \<Rightarrow> string \<Rightarrow> js_error + bool" where
  "has_prop (JObj r fs) k = Inr (k \<in> fst ` set fs)"
| "has_prop (JArr r xs) k = Inr (k = ''length'' \<or> k \<in> fst ` set (index_props xs))"
| "has_prop v k = Inl TypeError"

text \<open>The same test where the source has just checked that \<open>v\<close> is an object.\<close>

definition in_object :: "string \<Rightarrow> jsval \<Rightarrow> bool" where
  "in_object k v = (has_prop v k = Inr True)"

text \<open>\<^verbatim>\<open>v[k] = x\<close> in strict mode, returning the object as it is after the write.\<close>

fun set_prop :: "jsval \<Rightarrow> string \<Rightarrow> jsval \<Rightarrow> js_error + jsval" where
  "set_prop (JObj r fs) k x = Inr (JObj r (AList.update k x fs))"
| "set_prop (JArr r xs) k x =
     (case map_of (index_props [0..<length xs]) k of
        Some i \<Rightarrow> Inr (JArr r (xs[i := x]))
      | None \<Rightarrow> Inl Not_modelled)"
| "set_prop v k x = Inl TypeError"

text \<open>
  The own enumerable properties an object spread \<^verbatim>\<open>{...v}\<close> copies: none for
  \<^verbatim>\<open>null\<close>, \<^verbatim>\<open>undefined\<close>, a boolean or a number, the indexed characters of a string,
  the indexed elements of an array.
\<close>

fun own_props :: "jsval \<Rightarrow> (string \<times> jsval) list" where
  "own_props (JObj r fs) = fs"
| "own_props (JArr r xs) = index_props xs"
| "own_props (JStr s) = index_props (map (\<lambda>c. JStr [c]) s)"
| "own_props v = []"

text \<open>
  \<^verbatim>\<open>{ ...a, ...b }\<close>: the properties of \<open>a\<close>, each overwritten by \<open>b\<close>'s value where
  \<open>b\<close> has the key, followed by the keys only \<open>b\<close> has. (The engine lists integer-like
  keys first; no transition reads the order.)
\<close>

definition spread_merge :: "jsval \<Rightarrow> jsval \<Rightarrow> (string \<times> jsval) list" where
  "spread_merge a b =
     foldl (\<lambda>acc (k, v). AList.update k v acc) (own_props a) (own_props b)"

text \<open>
  \<^verbatim>\<open>n + amount\<close> for a number \<open>n\<close>: numeric addition with a number, a boolean or
  \<^verbatim>\<open>null\<close>, string concatenation with anything else. The sum of two doubles is the
  sum of the integers when the two and their sum are of magnitude below
  \<^verbatim>\<open>2^53\<close>.
\<close>

definition add_numbers :: "int \<Rightarrow> int \<Rightarrow> js_error + jsval" where
  "add_numbers n a =
     (if safe_int n \<and> safe_int a \<and> safe_int (n + a) then Inr (JNum (n + a))
      else Inl Not_modelled)"

fun js_add :: "int \<Rightarrow> jsval \<Rightarrow> js_error + jsval" where
  "js_add n (JNum a) = add_numbers n a"
| "js_add n (JBool b) = add_numbers n (if b then 1 else 0)"
| "js_add n JNull = add_numbers n 0"
| "js_add n JUndefined = Inl Not_modelled"
| "js_add n v =
     (case to_str v of
        Inl e \<Rightarrow> Inl e
      | Inr s \<Rightarrow> (case to_str (JNum n) of Inl e \<Rightarrow> Inl e | Inr d \<Rightarrow> Inr (JStr (d @ s))))"

subsection \<open>The result of a reducer\<close>

text \<open>
  A reducer either mutates the state it was given and returns nothing, or returns a
  value that becomes the state. \<open>Next s\<close> is a state of the container's own shape:
  the mutated draft, or a container the reducer built (\<^verbatim>\<open>state.filter(...)\<close>,
  \<^verbatim>\<open>[]\<close>). \<open>Replaced v\<close> is the payload returned as it is by \<^verbatim>\<open>set\<close>: the source
  does not look at it, so it need not have the container's shape. A reducer that
  creates an object takes the address the object gets as its first argument.
\<close>

datatype 'st "next" = Next 'st | Replaced jsval

type_synonym 'st reducer = "ref \<Rightarrow> 'st \<Rightarrow> jsval \<Rightarrow> js_error + 'st next"

text \<open>\<^verbatim>\<open>Array.isArray(payload) ? payload : [payload]\<close>\<close>

fun as_items :: "jsval \<Rightarrow> jsval list" where
  "as_items (JArr r xs) = xs"
| "as_items v = [v]"

subsection \<open>The collection kind: \<^verbatim>\<open>createArrayReducers\<close>\<close>

text \<open>
  \<^verbatim>\<open>state.filter((item) => item.id !== pid)\<close>: the callback reads \<^verbatim>\<open>item.id\<close> of every
  element, and raises on an element that is \<^verbatim>\<open>null\<close> or \<^verbatim>\<open>undefined\<close>. The elements
  are read from the draft.
\<close>

fun filter_id_differs :: "jsval \<Rightarrow> jsval list \<Rightarrow> js_error + jsval list" where
  "filter_id_differs pid [] = Inr []"
| "filter_id_differs pid (item # rest) =
     (case get_prop item ''id'' of
        Inl e \<Rightarrow> Inl e
      | Inr iid \<Rightarrow>
          (case filter_id_differs pid rest of
             Inl e \<Rightarrow> Inl e
           | Inr kept \<Rightarrow> Inr (if draft_eq iid pid then kept else item # kept)))"

text \<open>
  \<^verbatim>\<open>state.findIndex((item) => item.id === pid)\<close>: \<open>None\<close> is \<^verbatim>\<open>-1\<close>. The scan stops
  at the first match, so only the elements up to it are read. \<open>base\<close> is the state
  the reducer started from, from the index the scan has reached: the draft reads an
  element as a proxy while it is the element the state had at that index, and as
  itself once the reducer has written another value there.
\<close>

definition from_base :: "jsval list \<Rightarrow> jsval \<Rightarrow> bool" where
  "from_base base item = (case base of [] \<Rightarrow> False | b # _ \<Rightarrow> strict_eq b item)"

fun findIndex_id :: "jsval list \<Rightarrow> jsval \<Rightarrow> jsval list \<Rightarrow> js_error + nat option" where
  "findIndex_id base pid [] = Inr None"
| "findIndex_id base pid (item # rest) =
     (case get_prop item ''id'' of
        Inl e \<Rightarrow> Inl e
      | Inr iid \<Rightarrow>
          if (if from_base base item then draft_eq iid pid else strict_eq iid pid)
          then Inr (Some 0)
          else (case findIndex_id (tl base) pid rest of
                  Inl e \<Rightarrow> Inl e
                | Inr None \<Rightarrow> Inr None
                | Inr (Some i) \<Rightarrow> Inr (Some (Suc i))))"

definition array_add :: "jsval list reducer" where
  "array_add fresh state payload = Inr (Next (state @ [payload]))"

definition array_remove :: "jsval list reducer" where
  "array_remove fresh state payload =
     (if payload \<noteq> JNull \<and> typeof payload = TObject \<and> in_object ''id'' payload then
        (case filter_id_differs (prop_of payload ''id'') state of
           Inl e \<Rightarrow> Inl e
         | Inr kept \<Rightarrow> Inr (Next kept))
      else Inr (Next (filter (\<lambda>item. \<not> draft_eq item payload) state)))"

definition array_clear :: "jsval list reducer" where
  "array_clear fresh state payload = Inr (Next [])"

definition array_update :: "jsval list reducer" where
  "array_update fresh state payload =
     (if payload \<noteq> JNull \<and> typeof payload = TObject then
        if in_object ''at'' payload \<and> typeof (prop_of payload ''at'') = TNumber then
          (case prop_of payload ''at'' of
             JNum at \<Rightarrow>
               if at \<ge> 0 \<and> at < int (length state)
               then Inr (Next (state[nat at := prop_of payload ''value'']))
               else Inr (Next state)
           | _ \<Rightarrow> Inr (Next state))
        else if in_object ''id'' payload \<and> in_object ''changes'' payload then
          (case findIndex_id state (prop_of payload ''id'') state of
             Inl e \<Rightarrow> Inl e
           | Inr None \<Rightarrow> Inr (Next state)
           | Inr (Some idx) \<Rightarrow>
               if state ! idx \<noteq> JNull \<and> typeof (state ! idx) = TObject
               then Inr (Next (state[idx :=
                      JObj fresh (spread_merge (state ! idx) (prop_of payload ''changes''))]))
               else Inr (Next state))
        else Inr (Next state)
      else Inr (Next state))"

definition array_set :: "jsval list reducer" where
  "array_set fresh state payload = (if nullish payload then Inr (Next []) else Inr (Replaced payload))"

definition array_addMany :: "jsval list reducer" where
  "array_addMany fresh state payload =
     (case payload of JArr r items \<Rightarrow> Inr (Next (state @ items)) | _ \<Rightarrow> Inr (Next state))"

text \<open>\<^verbatim>\<open>state.filter((item) => !idSet.has(toId(item.id)))\<close>\<close>

fun filter_id_not_in :: "string list \<Rightarrow> jsval list \<Rightarrow> js_error + jsval list" where
  "filter_id_not_in idSet [] = Inr []"
| "filter_id_not_in idSet (item # rest) =
     (case get_prop item ''id'' of
        Inl e \<Rightarrow> Inl e
      | Inr iid \<Rightarrow>
          (case toId iid of
             Inl e \<Rightarrow> Inl e
           | Inr k \<Rightarrow>
               (case filter_id_not_in idSet rest of
                  Inl e \<Rightarrow> Inl e
                | Inr kept \<Rightarrow> Inr (if k \<in> set idSet then kept else item # kept))))"

text \<open>\<^verbatim>\<open>toId(x.id)\<close>\<close>

definition id_key :: "jsval \<Rightarrow> js_error + string" where
  "id_key x = (case get_prop x ''id'' of Inl e \<Rightarrow> Inl e | Inr v \<Rightarrow> toId v)"

text \<open>
  \<^verbatim>\<open>arr.length > 0 && first !== null && typeof first === 'object' && 'id' in first &&
  (typeof first.id === 'string' || typeof first.id === 'number')\<close>
\<close>

definition isIds :: "jsval list \<Rightarrow> bool" where
  "isIds arr =
     (case arr of
        [] \<Rightarrow> False
      | first # _ \<Rightarrow>
          first \<noteq> JNull \<and> typeof first = TObject \<and> in_object ''id'' first \<and>
          (typeof (prop_of first ''id'') = TString \<or> typeof (prop_of first ''id'') = TNumber))"

definition array_removeMany :: "jsval list reducer" where
  "array_removeMany fresh state payload =
     (let arr = as_items payload
      in if isIds arr then
           (case sequence_err (map id_key arr) of
              Inl e \<Rightarrow> Inl e
            | Inr idSet \<Rightarrow>
                (case filter_id_not_in idSet state of
                   Inl e \<Rightarrow> Inl e
                 | Inr kept \<Rightarrow> Inr (Next kept)))
         else Inr (Next (filter (\<lambda>item. \<not> (\<exists>v \<in> set arr. draft_eq item v)) state)))"

text \<open>
  The loop of \<^verbatim>\<open>upsert\<close>: \<^verbatim>\<open>e?.id\<close> is \<^verbatim>\<open>undefined\<close> for an entity that is \<^verbatim>\<open>null\<close>
  or \<^verbatim>\<open>undefined\<close>; the search runs on the state as the earlier items left it.
  \<open>base\<close> is the state the reducer started from.
\<close>

fun upsert_items :: "jsval list \<Rightarrow> jsval list \<Rightarrow> jsval list \<Rightarrow> js_error + jsval list" where
  "upsert_items base [] state = Inr state"
| "upsert_items base (entity # rest) state =
     (case findIndex_id base (if nullish entity then JUndefined else prop_of entity ''id'') state of
        Inl e \<Rightarrow> Inl e
      | Inr (Some idx) \<Rightarrow> upsert_items base rest (state[idx := entity])
      | Inr None \<Rightarrow> upsert_items base rest (state @ [entity]))"

definition array_upsert :: "jsval list reducer" where
  "array_upsert fresh state payload =
     (case upsert_items state (as_items payload) state of
        Inl e \<Rightarrow> Inl e
      | Inr state' \<Rightarrow> Inr (Next state'))"

subsection \<open>The normalized-index kind: \<^verbatim>\<open>createEntityReducers\<close>\<close>

text \<open>
  \<^verbatim>\<open>EntityState<T>\<close> is \<^verbatim>\<open>{ entities: Record<string, T>; ids: string[] }\<close>. The
  own properties of the record of entities are a finite map from keys to values; the
  reducers never read the order of its keys.
\<close>

record entity_state =
  entities :: "string \<rightharpoonup> jsval"
  ids :: "string list"

definition getEmptyEntityState :: entity_state where
  "getEmptyEntityState = \<lparr>entities = Map.empty, ids = []\<rparr>"

text \<open>
  \<^verbatim>\<open>state.entities[keyId]\<close>. The record is a plain object, so a key it does not own
  is looked up in \<^verbatim>\<open>Object.prototype\<close>: the names below find a built-in function,
  \<^verbatim>\<open>__proto__\<close> finds \<^verbatim>\<open>Object.prototype\<close> itself, and any other key finds
  \<^verbatim>\<open>undefined\<close>. A function and \<^verbatim>\<open>Object.prototype\<close> are truthy.
\<close>

definition OBJECT_PROTOTYPE_FUNCTIONS :: "string list" where
  "OBJECT_PROTOTYPE_FUNCTIONS =
     [''constructor'', ''hasOwnProperty'', ''isPrototypeOf'', ''propertyIsEnumerable'',
      ''toLocaleString'', ''toString'', ''valueOf'', ''__defineGetter__'', ''__defineSetter__'',
      ''__lookupGetter__'', ''__lookupSetter__'']"

datatype looked_up = Own jsval | Inherited_function | Prototype_object | Absent

definition lookup_entity :: "entity_state \<Rightarrow> string \<Rightarrow> looked_up" where
  "lookup_entity state keyId =
     (case entities state keyId of
        Some v \<Rightarrow> Own v
      | None \<Rightarrow>
          if keyId \<in> set OBJECT_PROTOTYPE_FUNCTIONS then Inherited_function
          else if keyId = ''__proto__'' then Prototype_object
          else Absent)"

text \<open>
  \<^verbatim>\<open>state.entities[keyId] = v\<close>. The write makes \<open>keyId\<close> an own key of the record,
  except for the key \<^verbatim>\<open>__proto__\<close> of a record that does not own it: that write goes
  to the accessor of \<^verbatim>\<open>Object.prototype\<close> and sets no own key.
\<close>

definition write_entity :: "string \<Rightarrow> jsval \<Rightarrow> entity_state \<Rightarrow> js_error + entity_state" where
  "write_entity keyId v state =
     (if keyId = ''__proto__'' \<and> entities state keyId = None then Inl Not_modelled
      else Inr (state\<lparr>entities := (entities state)(keyId \<mapsto> v)\<rparr>))"

text \<open>
  The body of the loops of \<^verbatim>\<open>add\<close>, \<^verbatim>\<open>addMany\<close> and \<^verbatim>\<open>upsert\<close>:
  \<^verbatim>\<open>state.entities[id] = entity; if (!state.ids.includes(id)) state.ids.push(id)\<close>.
\<close>

definition put_entity :: "string \<Rightarrow> jsval \<Rightarrow> entity_state \<Rightarrow> js_error + entity_state" where
  "put_entity eid entity state =
     (case write_entity eid entity state of
        Inl e \<Rightarrow> Inl e
      | Inr state' \<Rightarrow>
          Inr (state'\<lparr>ids := (if eid \<in> set (ids state') then ids state' else ids state' @ [eid])\<rparr>))"

fun add_loop :: "jsval list \<Rightarrow> entity_state \<Rightarrow> js_error + entity_state" where
  "add_loop [] state = Inr state"
| "add_loop (entity # rest) state =
     (case get_prop entity ''id'' of
        Inl e \<Rightarrow> Inl e
      | Inr v \<Rightarrow>
          (case toId v of
             Inl e \<Rightarrow> Inl e
           | Inr eid \<Rightarrow>
               (case put_entity eid entity state of
                  Inl e \<Rightarrow> Inl e
                | Inr state' \<Rightarrow> add_loop rest state')))"

definition entity_add :: "entity_state reducer" where
  "entity_add fresh state payload =
     (case add_loop (as_items payload) state of
        Inl e \<Rightarrow> Inl e
      | Inr state' \<Rightarrow> Inr (Next state'))"

text \<open>
  \<^verbatim>\<open>new Set((Array.isArray(payload) ? payload : [payload]).map(toId))\<close>, then the
  deletion of every such key and the filter of \<^verbatim>\<open>ids\<close>. A deletion touches own keys
  only.
\<close>

definition delete_ids :: "string list \<Rightarrow> entity_state \<Rightarrow> entity_state" where
  "delete_ids idsToRemove state =
     state\<lparr>entities := foldl (\<lambda>m eid. m(eid := None)) (entities state) idsToRemove,
           ids := filter (\<lambda>eid. eid \<notin> set idsToRemove) (ids state)\<rparr>"

definition entity_remove :: "entity_state reducer" where
  "entity_remove fresh state payload =
     (case sequence_err (map toId (as_items payload)) of
        Inl e \<Rightarrow> Inl e
      | Inr idsToRemove \<Rightarrow> Inr (Next (delete_ids idsToRemove state)))"

text \<open>
  \<^verbatim>\<open>const { id, changes } = action.payload\<close> raises on a payload that is \<^verbatim>\<open>null\<close> or
  \<^verbatim>\<open>undefined\<close>. \<^verbatim>\<open>{ ...existing, ...changes }\<close> copies the own enumerable properties
  of \<open>existing\<close>; a built-in function and \<^verbatim>\<open>Object.prototype\<close> have none.
\<close>

definition spread_onto :: "(string \<times> jsval) list \<Rightarrow> jsval \<Rightarrow> (string \<times> jsval) list" where
  "spread_onto props b = foldl (\<lambda>acc (k, v). AList.update k v acc) props (own_props b)"

definition entity_update :: "entity_state reducer" where
  "entity_update fresh state payload =
     (if nullish payload then Inl TypeError
      else
        (case toId (prop_of payload ''id'') of
           Inl e \<Rightarrow> Inl e
         | Inr keyId \<Rightarrow>
             (case lookup_entity state keyId of
                Own existing \<Rightarrow>
                  if truthy existing
                  then (case write_entity keyId
                               (JObj fresh (spread_merge existing (prop_of payload ''changes'')))
                               state of
                          Inl e \<Rightarrow> Inl e
                        | Inr state' \<Rightarrow> Inr (Next state'))
                  else Inr (Next state)
              | Inherited_function \<Rightarrow>
                  (case write_entity keyId
                          (JObj fresh (spread_onto [] (prop_of payload ''changes''))) state of
                     Inl e \<Rightarrow> Inl e
                   | Inr state' \<Rightarrow> Inr (Next state'))
              | Prototype_object \<Rightarrow>
                  (case write_entity keyId
                          (JObj fresh (spread_onto [] (prop_of payload ''changes''))) state of
                     Inl e \<Rightarrow> Inl e
                   | Inr state' \<Rightarrow> Inr (Next state'))
              | Absent \<Rightarrow> Inr (Next state))))"

definition entity_clear :: "entity_state reducer" where
  "entity_clear fresh state payload = Inr (Next \<lparr>entities = Map.empty, ids = []\<rparr>)"

definition entity_set :: "entity_state reducer" where
  "entity_set fresh state payload =
     (if nullish payload then Inr (Next \<lparr>entities = Map.empty, ids = []\<rparr>)
      else Inr (Replaced payload))"

text \<open>
  The values \<^verbatim>\<open>for (const entity of items)\<close> visits: the elements of an array, the
  characters of a string; a boolean, a number and a plain object are not iterable.
  \<^verbatim>\<open>addMany\<close> iterates \<^verbatim>\<open>payload ?? []\<close>.
\<close>

fun iterate :: "jsval \<Rightarrow> js_error + jsval list" where
  "iterate (JArr r xs) = Inr xs"
| "iterate (JStr s) = Inr (map (\<lambda>c. JStr [c]) s)"
| "iterate v = Inl TypeError"

fun addMany_loop :: "jsval list \<Rightarrow> entity_state \<Rightarrow> js_error + entity_state" where
  "addMany_loop [] state = Inr state"
| "addMany_loop (entity # rest) state =
     (case get_prop entity ''id'' of
        Inl e \<Rightarrow> Inl e
      | Inr v \<Rightarrow>
          (case toId v of
             Inl e \<Rightarrow> Inl e
           | Inr eid \<Rightarrow>
               (case put_entity eid entity state of
                  Inl e \<Rightarrow> Inl e
                | Inr state' \<Rightarrow> addMany_loop rest state')))"

definition entity_addMany :: "entity_state reducer" where
  "entity_addMany fresh state payload =
     (case (if nullish payload then Inr [] else iterate payload) of
        Inl e \<Rightarrow> Inl e
      | Inr items \<Rightarrow>
          (case addMany_loop items state of
             Inl e \<Rightarrow> Inl e
           | Inr state' \<Rightarrow> Inr (Next state')))"

definition entity_removeMany :: "entity_state reducer" where
  "entity_removeMany fresh state payload =
     (case sequence_err (map toId (as_items payload)) of
        Inl e \<Rightarrow> Inl e
      | Inr idsToRemove \<Rightarrow> Inr (Next (delete_ids idsToRemove state)))"

fun upsert_loop :: "jsval list \<Rightarrow> entity_state \<Rightarrow> js_error + entity_state" where
  "upsert_loop [] state = Inr state"
| "upsert_loop (entity # rest) state =
     (case get_prop entity ''id'' of
        Inl e \<Rightarrow> Inl e
      | Inr v \<Rightarrow>
          (case toId v of
             Inl e \<Rightarrow> Inl e
           | Inr eid \<Rightarrow>
               (case put_entity eid entity state of
                  Inl e \<Rightarrow> Inl e
                | Inr state' \<Rightarrow> upsert_loop rest state')))"

definition entity_upsert :: "entity_state reducer" where
  "entity_upsert fresh state payload =
     (case upsert_loop (as_items payload) state of
        Inl e \<Rightarrow> Inl e
      | Inr state' \<Rightarrow> Inr (Next state'))"

text \<open>
  \<^verbatim>\<open>const { id, field = 'value', amount = 1 } = action.payload ?? {}\<close>: a default
  replaces a property that is \<^verbatim>\<open>undefined\<close>, and only that.
\<close>

definition or_empty :: "jsval \<Rightarrow> jsval" where
  "or_empty payload = (if nullish payload then JObj 0 [] else payload)"

definition with_default :: "jsval \<Rightarrow> jsval \<Rightarrow> jsval" where
  "with_default v d = (if v = JUndefined then d else v)"

text \<open>
  \<^verbatim>\<open>existing && field in existing && typeof existing[field] === 'number'\<close>, then
  \<^verbatim>\<open>existing[field] += amount\<close>, on an entity the record owns. The write goes
  through the draft of the entity: the state then holds, under the same key, the
  entity with the field written. The key of \<^verbatim>\<open>field in existing\<close> is the string of
  \<^verbatim>\<open>field\<close>.
\<close>

definition increment_own ::
    "entity_state \<Rightarrow> string \<Rightarrow> jsval \<Rightarrow> jsval \<Rightarrow> jsval \<Rightarrow> js_error + entity_state next" where
  "increment_own state keyId existing field amount =
     (if \<not> truthy existing then Inr (Next state)
      else
        (case to_str field of
           Inl e \<Rightarrow> Inl e
         | Inr f \<Rightarrow>
             (case has_prop existing f of
                Inl e \<Rightarrow> Inl e
              | Inr False \<Rightarrow> Inr (Next state)
              | Inr True \<Rightarrow>
                  (case prop_of existing f of
                     JNum n \<Rightarrow>
                       (case js_add n amount of
                          Inl e \<Rightarrow> Inl e
                        | Inr v \<Rightarrow>
                            (case set_prop existing f v of
                               Inl e \<Rightarrow> Inl e
                             | Inr existing' \<Rightarrow>
                                 Inr (Next (state\<lparr>entities :=
                                   (entities state)(keyId \<mapsto> existing')\<rparr>))))
                   | _ \<Rightarrow> Inr (Next state)))))"

definition toggle_own ::
    "entity_state \<Rightarrow> string \<Rightarrow> jsval \<Rightarrow> jsval \<Rightarrow> js_error + entity_state next" where
  "toggle_own state keyId existing field =
     (if \<not> truthy existing then Inr (Next state)
      else
        (case to_str field of
           Inl e \<Rightarrow> Inl e
         | Inr f \<Rightarrow>
             (case has_prop existing f of
                Inl e \<Rightarrow> Inl e
              | Inr False \<Rightarrow> Inr (Next state)
              | Inr True \<Rightarrow>
                  (case prop_of existing f of
                     JBool b \<Rightarrow>
                       (case set_prop existing f (JBool (\<not> b)) of
                          Inl e \<Rightarrow> Inl e
                        | Inr existing' \<Rightarrow>
                            Inr (Next (state\<lparr>entities :=
                              (entities state)(keyId \<mapsto> existing')\<rparr>)))
                   | _ \<Rightarrow> Inr (Next state)))))"

text \<open>
  The same test on what a key the record does not own finds. Of a built-in function
  only \<^verbatim>\<open>length\<close> is a number, and no property is a boolean: \<^verbatim>\<open>length\<close> is
  read-only, and the write of \<^verbatim>\<open>existing.length += amount\<close> raises in strict mode
  (when the addition has not raised before it). No property of \<^verbatim>\<open>Object.prototype\<close>
  is a number or a boolean.
\<close>

definition increment_function :: "entity_state \<Rightarrow> jsval \<Rightarrow> js_error + entity_state next" where
  "increment_function state field =
     (case to_str field of
        Inl e \<Rightarrow> Inl e
      | Inr f \<Rightarrow>
          if f = ''length'' then Inl TypeError
          else if f = ''arguments'' \<or> f = ''caller'' then Inl Not_modelled
          else Inr (Next state))"

definition toggle_function :: "entity_state \<Rightarrow> jsval \<Rightarrow> js_error + entity_state next" where
  "toggle_function state field =
     (case to_str field of
        Inl e \<Rightarrow> Inl e
      | Inr f \<Rightarrow>
          if f = ''arguments'' \<or> f = ''caller'' then Inl Not_modelled
          else Inr (Next state))"

definition unchanged_prototype :: "entity_state \<Rightarrow> jsval \<Rightarrow> js_error + entity_state next" where
  "unchanged_prototype state field =
     (case to_str field of Inl e \<Rightarrow> Inl e | Inr f \<Rightarrow> Inr (Next state))"

definition entity_increment :: "entity_state reducer" where
  "entity_increment fresh state payload =
     (let field = with_default (prop_of (or_empty payload) ''field'') (JStr ''value'');
          amount = with_default (prop_of (or_empty payload) ''amount'') (JNum 1)
      in case toId (prop_of (or_empty payload) ''id'') of
           Inl e \<Rightarrow> Inl e
         | Inr keyId \<Rightarrow>
             (case lookup_entity state keyId of
                Own existing \<Rightarrow> increment_own state keyId existing field amount
              | Inherited_function \<Rightarrow> increment_function state field
              | Prototype_object \<Rightarrow> unchanged_prototype state field
              | Absent \<Rightarrow> Inr (Next state)))"

definition entity_toggle :: "entity_state reducer" where
  "entity_toggle fresh state payload =
     (let field = with_default (prop_of (or_empty payload) ''field'') (JStr ''value'')
      in case toId (prop_of (or_empty payload) ''id'') of
           Inl e \<Rightarrow> Inl e
         | Inr keyId \<Rightarrow>
             (case lookup_entity state keyId of
                Own existing \<Rightarrow> toggle_own state keyId existing field
              | Inherited_function \<Rightarrow> toggle_function state field
              | Prototype_object \<Rightarrow> unchanged_prototype state field
              | Absent \<Rightarrow> Inr (Next state)))"

subsection \<open>Building the reducer maps\<close>

datatype ActionNaming = Short | Prefixed

text \<open>
  The options of the builders, \<^verbatim>\<open>{ name: string; actionNaming?: ActionNaming }\<close>; the
  configuration of \<^verbatim>\<open>createAutoSlice\<close> extends them. An optional field is an
  \<open>option\<close>. An asynchronous task descriptor is known by the type prefix of the
  actions it dispatches.
\<close>

record options =
  name :: string
  actionNaming :: "ActionNaming option"

type_synonym thunk = string

record 'st config = options +
  initialState :: 'st
  reducers :: "string list"
  customReducers :: "(string \<times> 'st reducer) list option"
  asyncThunks :: "(string \<times> thunk) list option"

definition ARRAY_REDUCERS :: "string list" where
  "ARRAY_REDUCERS =
     [''add'', ''remove'', ''clear'', ''update'', ''set'', ''addMany'', ''removeMany'', ''upsert'']"

definition ENTITY_REDUCERS :: "string list" where
  "ENTITY_REDUCERS =
     [''add'', ''remove'', ''update'', ''clear'', ''set'', ''addMany'', ''removeMany'', ''upsert'',
      ''increment'', ''toggle'']"

definition isArrayReducer :: "string \<Rightarrow> bool" where
  "isArrayReducer reducerName = (reducerName \<in> set ARRAY_REDUCERS)"

definition isEntityReducer :: "string \<Rightarrow> bool" where
  "isEntityReducer reducerName = (reducerName \<in> set ENTITY_REDUCERS)"

text \<open>\<^verbatim>\<open>toUpperCase\<close> on one character of an ASCII name.\<close>

definition toUpperCase :: "char \<Rightarrow> char" where
  "toUpperCase c =
     (case map_of (zip ''abcdefghijklmnopqrstuvwxyz'' ''ABCDEFGHIJKLMNOPQRSTUVWXYZ'') c of
        None \<Rightarrow> c
      | Some u \<Rightarrow> u)"

fun capitalize :: "string \<Rightarrow> string" where
  "capitalize [] = []"
| "capitalize (c # cs) = toUpperCase c # cs"

definition actionKey :: "string \<Rightarrow> string \<Rightarrow> ActionNaming option \<Rightarrow> string" where
  "actionKey nm reducerName naming =
     (if naming = Some Prefixed then nm @ capitalize reducerName else reducerName)"

text \<open>
  The \<^verbatim>\<open>switch\<close> of each builder: the reducer a recognized name stands for. A name
  with no \<^verbatim>\<open>case\<close> assigns nothing.
\<close>

definition array_case :: "string \<Rightarrow> jsval list reducer option" where
  "array_case reducerName =
     (if reducerName = ''add'' then Some array_add
      else if reducerName = ''remove'' then Some array_remove
      else if reducerName = ''clear'' then Some array_clear
      else if reducerName = ''update'' then Some array_update
      else if reducerName = ''set'' then Some array_set
      else if reducerName = ''addMany'' then Some array_addMany
      else if reducerName = ''removeMany'' then Some array_removeMany
      else if reducerName = ''upsert'' then Some array_upsert
      else None)"

definition entity_case :: "string \<Rightarrow> entity_state reducer option" where
  "entity_case reducerName =
     (if reducerName = ''add'' then Some entity_add
      else if reducerName = ''remove'' then Some entity_remove
      else if reducerName = ''update'' then Some entity_update
      else if reducerName = ''clear'' then Some entity_clear
      else if reducerName = ''set'' then Some entity_set
      else if reducerName = ''addMany'' then Some entity_addMany
      else if reducerName = ''removeMany'' then Some entity_removeMany
      else if reducerName = ''upsert'' then Some entity_upsert
      else if reducerName = ''increment'' then Some entity_increment
      else if reducerName = ''toggle'' then Some entity_toggle
      else None)"

text \<open>
  \<^verbatim>\<open>const { name = '', actionNaming } = options ?? {}\<close>, and the loop over the requested
  names. \<^verbatim>\<open>reducersMap[k] = f\<close> is an update of an association list: a key that is
  already there keeps its place and takes the new value.
\<close>

definition options_name :: "options option \<Rightarrow> string" where
  "options_name opts = (case opts of None \<Rightarrow> [] | Some opt \<Rightarrow> name opt)"

definition options_naming :: "options option \<Rightarrow> ActionNaming option" where
  "options_naming opts = (case opts of None \<Rightarrow> None | Some opt \<Rightarrow> actionNaming opt)"

definition createArrayReducers ::
    "string list \<Rightarrow> options option \<Rightarrow> (string \<times> jsval list reducer) list" where
  "createArrayReducers names opts =
     foldl (\<lambda>reducersMap reducerName.
              if \<not> isArrayReducer reducerName then reducersMap
              else (case array_case reducerName of
                      None \<Rightarrow> reducersMap
                    | Some f \<Rightarrow>
                        AList.update
                          (actionKey (options_name opts) reducerName (options_naming opts)) f
                          reducersMap))
       [] names"

definition createEntityReducers ::
    "string list \<Rightarrow> options option \<Rightarrow> (string \<times> entity_state reducer) list" where
  "createEntityReducers names opts =
     foldl (\<lambda>reducersMap reducerName.
              if \<not> isEntityReducer reducerName then reducersMap
              else (case entity_case reducerName of
                      None \<Rightarrow> reducersMap
                    | Some f \<Rightarrow>
                        AList.update
                          (actionKey (options_name opts) reducerName (options_naming opts)) f
                          reducersMap))
       [] names"

subsection \<open>The lifecycle overlay: \<^verbatim>\<open>addAsyncExtraReducers\<close>\<close>

datatype AsyncStatus = idle | pending | fulfilled | rejected

record AsyncStateFields =
  loading :: bool
  error :: jsval
  status :: AsyncStatus

definition DEFAULT_ASYNC_STATE :: AsyncStateFields where
  "DEFAULT_ASYNC_STATE = \<lparr>loading = False, error = JNull, status = idle\<rparr>"

text \<open>
  The three notifications of a task. \<^verbatim>\<open>builder.addCase(thunk.pending, reducer)\<close>
  registers the reducer for the pending notification of that task; the list of cases
  is what the calls of \<^verbatim>\<open>addCase\<close> leave in the builder, in order.
\<close>

datatype lifecycle = on_pending | on_fulfilled | on_rejected

text \<open>
  The case reducers. The action of a notification is an object; \<^verbatim>\<open>a.error?.message\<close>
  is \<^verbatim>\<open>undefined\<close> when \<^verbatim>\<open>a.error\<close> is \<^verbatim>\<open>null\<close> or \<^verbatim>\<open>undefined\<close>.
\<close>

definition nullish_or :: "jsval \<Rightarrow> jsval \<Rightarrow> jsval" where
  "nullish_or v d = (if nullish v then d else v)"

definition pending_case ::
    "'a AsyncStateFields_scheme \<Rightarrow> jsval \<Rightarrow> 'a AsyncStateFields_scheme" where
  "pending_case state action = state\<lparr>loading := True, error := JNull, status := pending\<rparr>"

definition fulfilled_case ::
    "'a AsyncStateFields_scheme \<Rightarrow> jsval \<Rightarrow> 'a AsyncStateFields_scheme" where
  "fulfilled_case state action = state\<lparr>loading := False, error := JNull, status := fulfilled\<rparr>"

definition rejected_case ::
    "'a AsyncStateFields_scheme \<Rightarrow> jsval \<Rightarrow> 'a AsyncStateFields_scheme" where
  "rejected_case state action =
     state\<lparr>loading := False,
           error := nullish_or
                      (nullish_or (prop_of action ''payload'')
                         (if nullish (prop_of action ''error'') then JUndefined
                          else prop_of (prop_of action ''error'') ''message''))
                      (JStr ''Request failed''),
           status := rejected\<rparr>"

definition addAsyncExtraReducers ::
    "(string \<times> thunk) list \<Rightarrow>
     ((thunk \<times> lifecycle) \<times> ('a AsyncStateFields_scheme \<Rightarrow> jsval \<Rightarrow> 'a AsyncStateFields_scheme)) list"
  where
  "addAsyncExtraReducers thunks =
     concat (map (\<lambda>t. [((t, on_pending), pending_case),
                        ((t, on_fulfilled), fulfilled_case),
                        ((t, on_rejected), rejected_case)])
                 (map snd thunks))"

text \<open>
  What the slice's reducer does with a notification: the case registered for it runs;
  a notification of a task that is not registered leaves the state as it is.
\<close>

definition notify ::
    "((thunk \<times> lifecycle) \<times> ('s \<Rightarrow> jsval \<Rightarrow> 's)) list \<Rightarrow> 's \<Rightarrow> thunk \<times> lifecycle \<Rightarrow> jsval \<Rightarrow> 's"
  where
  "notify cases state signal action =
     (case map_of cases signal of None \<Rightarrow> state | Some r \<Rightarrow> r state action)"

text \<open>\<^verbatim>\<open>asyncThunks && Object.keys(asyncThunks).length > 0\<close>\<close>

definition hasAsync :: "(string \<times> thunk) list option \<Rightarrow> bool" where
  "hasAsync thunks = (case thunks of None \<Rightarrow> False | Some ts \<Rightarrow> length ts > 0)"

definition thunks_of :: "(string \<times> thunk) list option \<Rightarrow> (string \<times> thunk) list" where
  "thunks_of thunks = (case thunks of None \<Rightarrow> [] | Some ts \<Rightarrow> ts)"

subsection \<open>Assembly: \<^verbatim>\<open>createAutoSlice\<close>\<close>

text \<open>
  The custom reducers are written into the map after the built ones, each under its
  key: \<^verbatim>\<open>merged[actionKey(name, customName, actionNaming)] = fn\<close>.
\<close>

definition merge_custom ::
    "string \<Rightarrow> ActionNaming option \<Rightarrow> (string \<times> 'st reducer) list option \<Rightarrow>
     (string \<times> 'st reducer) list \<Rightarrow> (string \<times> 'st reducer) list" where
  "merge_custom nm naming custom built =
     (case custom of
        None \<Rightarrow> built
      | Some cs \<Rightarrow> foldl (\<lambda>merged (customName, fn). AList.update (actionKey nm customName naming) fn merged)
                    built cs)"

text \<open>
  With tasks configured the collection is nested: \<^verbatim>\<open>{ data, loading, error, status }\<close>.
  A wrapped reducer runs the reducer on \<^verbatim>\<open>state.data\<close> and stores what it returns in
  \<^verbatim>\<open>state.data\<close>; a reducer that returns nothing has mutated \<^verbatim>\<open>state.data\<close> in place.
  After the reducer, \<open>data\<close> is what the reducer left: a sequence, or the payload
  \<^verbatim>\<open>set\<close> returned.
\<close>

record 'd AsyncArrayState = AsyncStateFields +
  data :: 'd

type_synonym wrapped_reducer =
  "ref \<Rightarrow> jsval list AsyncArrayState \<Rightarrow> jsval \<Rightarrow> js_error + jsval list next AsyncArrayState"

definition wrap :: "jsval list reducer \<Rightarrow> wrapped_reducer" where
  "wrap reducer fresh state action_payload =
     (case reducer fresh (data state) action_payload of
        Inl e \<Rightarrow> Inl e
      | Inr result \<Rightarrow>
          Inr \<lparr>loading = loading state, error = error state, status = status state,
               data = result\<rparr>)"

definition wrappedReducers ::
    "(string \<times> jsval list reducer) list \<Rightarrow> (string \<times> wrapped_reducer) list" where
  "wrappedReducers mergedArray = map (\<lambda>(key, reducer). (key, wrap reducer)) mergedArray"

definition asyncInitialState :: "jsval list \<Rightarrow> jsval list AsyncArrayState" where
  "asyncInitialState initial =
     \<lparr>loading = loading DEFAULT_ASYNC_STATE, error = error DEFAULT_ASYNC_STATE,
      status = status DEFAULT_ASYNC_STATE, data = initial\<rparr>"

text \<open>
  For the normalized-index kind the lifecycle fields stand beside \<^verbatim>\<open>entities\<close> and
  \<^verbatim>\<open>ids\<close>: \<^verbatim>\<open>{ ...initialState, ...DEFAULT_ASYNC_STATE }\<close>.
\<close>

definition entityAsyncInitialState :: "entity_state \<Rightarrow> entity_state AsyncStateFields_scheme" where
  "entityAsyncInitialState initial = AsyncStateFields.extend DEFAULT_ASYNC_STATE initial"

text \<open>
  The selectors \<^verbatim>\<open>createAutoSlice\<close> returns for the collection kind, each a function
  of the state of the slice: \<^verbatim>\<open>selectAll\<close> and \<^verbatim>\<open>selectTotal\<close> and, with tasks,
  \<^verbatim>\<open>selectLoading\<close>, \<^verbatim>\<open>selectError\<close> and \<^verbatim>\<open>selectStatus\<close>.
\<close>

record 's selectors =
  selectAll :: "'s \<Rightarrow> jsval list"
  selectTotal :: "'s \<Rightarrow> nat"

record 's async_selectors = "'s selectors" +
  selectLoading :: "'s \<Rightarrow> bool"
  selectError :: "'s \<Rightarrow> jsval"
  selectStatus :: "'s \<Rightarrow> AsyncStatus"

text \<open>
  The slice of the collection kind: its initial state, its case reducers by key,
  with tasks the cases of the lifecycle, and its selectors.
\<close>

datatype array_slice =
    Plain_slice "jsval list" "(string \<times> jsval list reducer) list" "jsval list selectors"
  | Async_slice "jsval list AsyncArrayState" "(string \<times> wrapped_reducer) list"
      "((thunk \<times> lifecycle) \<times>
        (jsval list AsyncArrayState \<Rightarrow> jsval \<Rightarrow> jsval list AsyncArrayState)) list"
      "jsval list AsyncArrayState async_selectors"

definition createAutoSlice_array :: "jsval list config \<Rightarrow> array_slice" where
  "createAutoSlice_array cfg =
     (let arrayReducers = createArrayReducers (reducers cfg) (Some (options.truncate cfg));
          mergedArray = merge_custom (name cfg) (actionNaming cfg) (customReducers cfg) arrayReducers
      in if hasAsync (asyncThunks cfg)
         then Async_slice (asyncInitialState (initialState cfg)) (wrappedReducers mergedArray)
                (addAsyncExtraReducers (thunks_of (asyncThunks cfg)))
                \<lparr>selectAll = (\<lambda>state. data state),
                 selectTotal = (\<lambda>state. length (data state)),
                 selectLoading = (\<lambda>state. loading state),
                 selectError = (\<lambda>state. error state),
                 selectStatus = (\<lambda>state. status state)\<rparr>
         else Plain_slice (initialState cfg) mergedArray
                \<lparr>selectAll = (\<lambda>state. state),
                 selectTotal = (\<lambda>state. length state)\<rparr>)"

text \<open>
  The slice of the normalized-index kind: its initial state, its case reducers by key
  and, with tasks, the cases of the lifecycle. Its selectors are not embedded.
\<close>

datatype entity_slice =
    Plain_entity_slice entity_state "(string \<times> entity_state reducer) list"
  | Async_entity_slice "entity_state AsyncStateFields_scheme" "(string \<times> entity_state reducer) list"
      "((thunk \<times> lifecycle) \<times>
        (entity_state AsyncStateFields_scheme \<Rightarrow> jsval \<Rightarrow> entity_state AsyncStateFields_scheme)) list"

definition createAutoSlice_entity :: "entity_state config \<Rightarrow> entity_slice" where
  "createAutoSlice_entity cfg =
     (let entityReducers = createEntityReducers (reducers cfg) (Some (options.truncate cfg));
          mergedEntity = merge_custom (name cfg) (actionNaming cfg) (customReducers cfg) entityReducers
      in if hasAsync (asyncThunks cfg)
         then Async_entity_slice (entityAsyncInitialState (initialState cfg)) mergedEntity
                (addAsyncExtraReducers (thunks_of (asyncThunks cfg)))
         else Plain_entity_slice (initialState cfg) mergedEntity)"

subsection \<open>The invariant of the normalized-index kind\<close>

text \<open>
  The identifier sequence has no duplicates and its members are exactly the keys of
  the mapping.
\<close>

definition entity_invariant :: "entity_state \<Rightarrow> bool" where
  "entity_invariant state = (distinct (ids state) \<and> set (ids state) = dom (entities state))"

text \<open>
  The state a value denotes when it is installed as the state by \<^verbatim>\<open>set\<close>: an object
  whose \<^verbatim>\<open>entities\<close> is an object and whose \<^verbatim>\<open>ids\<close> is an array of strings. Any other
  value is no state of the kind.
\<close>

fun string_values :: "jsval list \<Rightarrow> string list option" where
  "string_values [] = Some []"
| "string_values (JStr s # rest) =
     (case string_values rest of None \<Rightarrow> None | Some ss \<Rightarrow> Some (s # ss))"
| "string_values (v # rest) = None"

definition entity_state_of :: "jsval \<Rightarrow> entity_state option" where
  "entity_state_of v =
     (case prop_of v ''entities'' of
        JObj r es \<Rightarrow>
          (case prop_of v ''ids'' of
             JArr r' xs \<Rightarrow>
               (case string_values xs of
                  None \<Rightarrow> None
                | Some ss \<Rightarrow> Some \<lparr>entities = map_of es, ids = ss\<rparr>)
           | _ \<Rightarrow> None)
      | _ \<Rightarrow> None)"

text \<open>The invariant on what a reducer returned.\<close>

fun next_invariant :: "entity_state next \<Rightarrow> bool" where
  "next_invariant (Next state) = entity_invariant state"
| "next_invariant (Replaced v) =
     (case entity_state_of v of None \<Rightarrow> False | Some state \<Rightarrow> entity_invariant state)"

subsection \<open>The declared payloads\<close>





text \<open>
  The collection kind has no constraint on its elements. \<^verbatim>\<open>removeMany\<close> by
  identifier reads \<^verbatim>\<open>item.id\<close> of every element and of every item of its payload and
  converts it to a string: a value is readable when it is not \<^verbatim>\<open>null\<close> or
  \<^verbatim>\<open>undefined\<close> and its \<^verbatim>\<open>id\<close> has a string.
\<close>

definition readable :: "jsval \<Rightarrow> bool" where
  "readable v =
     (\<not> nullish v \<and> (case toId (prop_of v ''id'') of Inl e \<Rightarrow> False | Inr k \<Rightarrow> True))"

subsection \<open>Where a transition returns\<close>






section \<open>Properties\<close>


subsection \<open>Removal from a collection\<close>

lemma filter_id_differs_total:
  "\<forall>item \<in> set state. \<not> nullish item \<Longrightarrow>
   filter_id_differs pid state =
     Inr (filter (\<lambda>item. \<not> draft_eq (prop_of item ''id'') pid) state)"
  by (induction state) (auto simp: get_prop_def)

lemma filter_id_differs_subseq:
  "filter_id_differs pid state = Inr kept \<Longrightarrow> subseq kept state"
  by (induction state arbitrary: kept) (auto split: sum.splits if_splits)

lemma draft_eq_primitive:
  "draft_eq item v = (item = v \<and> (item = JNull \<or> typeof item \<noteq> TObject))"
  by (cases item) auto

text \<open>
  Claim C3, as the code has it. \<^verbatim>\<open>remove\<close> of the collection kind, with a payload
  that is a non-null object exposing an \<^verbatim>\<open>id\<close> property, removes exactly the elements
  whose \<^verbatim>\<open>id\<close> is a primitive value strictly equal to the payload's \<^verbatim>\<open>id\<close>, whatever the
  rest of the element, provided no element of the state is \<^verbatim>\<open>null\<close> or \<^verbatim>\<open>undefined\<close>.
  With any other payload it removes exactly the elements that are primitive values
  strictly equal to the payload, in every state. An element that is an object or an
  array is never removed by value, and an \<^verbatim>\<open>id\<close> that is an object or an array never
  matches: the filter sees the proxy of the draft, which is not the payload's value.
  Whenever \<^verbatim>\<open>remove\<close> returns, what is left is a subsequence of the state: the relative
  order of the remaining elements is unchanged.
\<close>

theorem array_remove_correct:
  "(payload \<noteq> JNull \<and> typeof payload = TObject \<and> in_object ''id'' payload \<longrightarrow>
      (\<forall>item \<in> set state. \<not> nullish item) \<longrightarrow>
      array_remove fresh state payload =
        Inr (Next (filter (\<lambda>item. \<not> draft_eq (prop_of item ''id'') (prop_of payload ''id''))
                     state)))
   \<and> (\<not> (payload \<noteq> JNull \<and> typeof payload = TObject \<and> in_object ''id'' payload) \<longrightarrow>
      array_remove fresh state payload =
        Inr (Next (filter (\<lambda>item. \<not> draft_eq item payload) state)))
   \<and> (\<forall>kept. array_remove fresh state payload = Inr (Next kept) \<longrightarrow> subseq kept state)
   \<and> (\<forall>item v. draft_eq item v = (item = v \<and> (item = JNull \<or> typeof item \<noteq> TObject)))"
proof (intro conjI impI allI)
  assume "payload \<noteq> JNull \<and> typeof payload = TObject \<and> in_object ''id'' payload"
    and "\<forall>item \<in> set state. \<not> nullish item"
  then show "array_remove fresh state payload =
        Inr (Next (filter (\<lambda>item. \<not> draft_eq (prop_of item ''id'') (prop_of payload ''id''))
                     state))"
    by (simp add: array_remove_def filter_id_differs_total)
next
  assume "\<not> (payload \<noteq> JNull \<and> typeof payload = TObject \<and> in_object ''id'' payload)"
  then show "array_remove fresh state payload =
        Inr (Next (filter (\<lambda>item. \<not> draft_eq item payload) state))"
    by (auto simp: array_remove_def)
next
  fix kept
  assume "array_remove fresh state payload = Inr (Next kept)"
  then show "subseq kept state"
    by (auto simp: array_remove_def dest: filter_id_differs_subseq
             split: sum.splits if_splits)
next
  fix item v
  show "draft_eq item v = (item = v \<and> (item = JNull \<or> typeof item \<noteq> TObject))"
    by (rule draft_eq_primitive)
qed

text \<open>
  The theorem at the collection of the test \<^verbatim>\<open>remove by id when items have id\<close>, with
  a number among the elements, and at a removal by value from a collection that
  holds the number twice, \<^verbatim>\<open>null\<close> and an object.
\<close>

theorem array_remove_correct_witness:
  "array_remove 0
     [JObj 1 [(''id'', JStr ''a''), (''label'', JStr ''A'')], JNum 7, JObj 2 [(''id'', JStr ''b'')]]
     (JObj 3 [(''id'', JStr ''a'')])
   = Inr (Next [JNum 7, JObj 2 [(''id'', JStr ''b'')]])
   \<and> array_remove 0 [JNum 1, JNull, JObj 5 [(''x'', JNum 1)], JNum 2, JNum 1] (JNum 1)
   = Inr (Next [JNull, JObj 5 [(''x'', JNum 1)], JNum 2])"
  using array_remove_correct [of "JObj 3 [(''id'', JStr ''a'')]"
      "[JObj 1 [(''id'', JStr ''a''), (''label'', JStr ''A'')], JNum 7, JObj 2 [(''id'', JStr ''b'')]]" 0]
    array_remove_correct [of "JNum 1" "[JNum 1, JNull, JObj 5 [(''x'', JNum 1)], JNum 2, JNum 1]" 0]
  by (simp add: in_object_def)

text \<open>
  Claim C3 as stated speaks of any state and of every element strictly equal to the
  payload. In a state that holds \<^verbatim>\<open>null\<close>, a removal by identifier reads \<^verbatim>\<open>item.id\<close>
  of \<^verbatim>\<open>null\<close> and raises; nothing is removed. A removal by value of the object the
  state holds, the payload being that very object, removes nothing.
\<close>

theorem array_remove_null_element_counterexample:
  "array_remove 0 [JNull, JObj 1 [(''id'', JNum 1)]] (JObj 2 [(''id'', JNum 1)]) = Inl TypeError
   \<and> strict_eq (JObj 1 [(''x'', JNum 1)]) (JObj 1 [(''x'', JNum 1)])
   \<and> array_remove 0 [JObj 1 [(''x'', JNum 1)], JNum 2] (JObj 1 [(''x'', JNum 1)])
     = Inr (Next [JObj 1 [(''x'', JNum 1)], JNum 2])"
  by (simp add: array_remove_def in_object_def get_prop_def)

subsection \<open>\<^verbatim>\<open>upsert\<close> and \<^verbatim>\<open>add\<close> of the normalized-index kind\<close>

lemma upsert_loop_eq_add_loop: "upsert_loop items state = add_loop items state"
  by (induction items arbitrary: state) (auto split: sum.splits)

lemma addMany_loop_eq_add_loop: "addMany_loop items state = add_loop items state"
  by (induction items arbitrary: state) (auto split: sum.splits)

text \<open>
  Claim C5. For the normalized-index kind the transition built for \<^verbatim>\<open>upsert\<close> is
  extensionally equal to the transition built for \<^verbatim>\<open>add\<close>: in every state and for
  every payload (one entity, a sequence of entities, or anything else) the two
  return the same next state or raise the same error.
\<close>

theorem entity_upsert_is_add:
  "\<exists>f g. entity_case ''upsert'' = Some f \<and> entity_case ''add'' = Some g \<and>
         (\<forall>fresh state payload. f fresh state payload = g fresh state payload)"
  by (simp add: entity_case_def entity_upsert_def entity_add_def upsert_loop_eq_add_loop)


subsection \<open>How the collection kind compares identifiers\<close>

lemma show_int_1: "show_int 1 = ''1''"
  by (simp add: show_int_def show_nat.simps digit_char_def)

lemma strict_eq_refl: "strict_eq v v"
  by (cases v) auto

lemma from_base_self: "from_base (item # rest) item"
  by (simp add: from_base_def strict_eq_refl)

lemma findIndex_id_none:
  "\<forall>item \<in> set state. \<not> nullish item \<and> \<not> draft_eq (prop_of item ''id'') pid \<Longrightarrow>
   findIndex_id state pid state = Inr None"
  by (induction state) (auto simp: get_prop_def from_base_self)

lemma findIndex_id_first:
  "\<forall>item \<in> set pre. \<not> nullish item \<and> \<not> draft_eq (prop_of item ''id'') pid \<Longrightarrow>
   \<not> nullish x \<Longrightarrow> draft_eq (prop_of x ''id'') pid \<Longrightarrow>
   findIndex_id (pre @ x # post) pid (pre @ x # post) = Inr (Some (length pre))"
  by (induction pre) (auto simp: get_prop_def from_base_self)

lemma filter_id_not_in_readable:
  "list_all readable state \<Longrightarrow>
   filter_id_not_in idSet state =
     Inr (filter (\<lambda>item. \<forall>k \<in> set idSet. toId (prop_of item ''id'') \<noteq> Inr k) state)"
proof (induction state)
  case Nil
  then show ?case by simp
next
  case (Cons item rest)
  from Cons.prems have "\<not> nullish item" by (simp add: readable_def)
  then have get: "get_prop item ''id'' = Inr (prop_of item ''id'')"
    by (simp add: get_prop_def)
  from Cons.prems obtain k where k: "toId (prop_of item ''id'') = Inr k"
    by (auto simp: readable_def split: sum.splits)
  from Cons have "filter_id_not_in idSet rest =
     Inr (filter (\<lambda>item. \<forall>k \<in> set idSet. toId (prop_of item ''id'') \<noteq> Inr k) rest)"
    by simp
  with get k show ?case by auto
qed

lemma toId_number: "safe_int n \<Longrightarrow> toId (JNum n) = Inr (show_int n)"
  by (simp add: toId_def)

text \<open>
  Claim C9. In the collection kind \<^verbatim>\<open>remove\<close> with an id-bearing payload, \<^verbatim>\<open>upsert\<close>
  and \<^verbatim>\<open>update\<close> with \<^verbatim>\<open>{id, changes}\<close> compare the \<^verbatim>\<open>id\<close> of an element with the
  payload's by \<^verbatim>\<open>===\<close>, without conversion: in a state without \<^verbatim>\<open>null\<close> and
  \<^verbatim>\<open>undefined\<close>, \<^verbatim>\<open>remove\<close> drops exactly the elements whose \<^verbatim>\<open>id\<close> equals the
  payload's in that sense, \<^verbatim>\<open>upsert\<close> and \<^verbatim>\<open>update\<close> act on the first such element,
  and when there is none \<^verbatim>\<open>upsert\<close> appends and \<^verbatim>\<open>update\<close> changes nothing. A number
  and a string are never equal in that sense: an element with the numeric id \<open>n\<close>
  is not matched by a payload whose id is a string, and conversely. \<^verbatim>\<open>removeMany\<close>
  with id-bearing objects compares the strings of the two ids: in a state whose
  elements are readable it drops exactly the elements whose \<^verbatim>\<open>id\<close> has the string of
  the payload's \<^verbatim>\<open>id\<close>, so that the payload id that is the decimal string of \<open>n\<close>
  drops the elements with the numeric id \<open>n\<close>, and conversely; \<open>n\<close> is a number of
  magnitude below \<^verbatim>\<open>2^53\<close>, whose string is its decimal digits, and the string of \<open>1\<close>
  is \<^verbatim>\<open>"1"\<close>.
\<close>

theorem id_comparison_differs:
  "((\<forall>item \<in> set state. \<not> nullish item) \<longrightarrow>
      array_remove fresh state (JObj b ((''id'', pid) # gs))
        = Inr (Next (filter (\<lambda>item. \<not> draft_eq (prop_of item ''id'') pid) state)))
   \<and> ((\<forall>item \<in> set pre. \<not> nullish item \<and> \<not> draft_eq (prop_of item ''id'') pid) \<and>
       \<not> nullish x \<and> draft_eq (prop_of x ''id'') pid \<longrightarrow>
        array_upsert fresh (pre @ x # post) (JObj b ((''id'', pid) # gs))
          = Inr (Next (pre @ JObj b ((''id'', pid) # gs) # post))
        \<and> array_update fresh (pre @ x # post) (JObj b [(''id'', pid), (''changes'', changes)])
          = Inr (Next (if typeof x = TObject
                       then pre @ JObj fresh (spread_merge x changes) # post
                       else pre @ x # post)))
   \<and> ((\<forall>item \<in> set state. \<not> nullish item \<and> \<not> draft_eq (prop_of item ''id'') pid) \<longrightarrow>
        array_upsert fresh state (JObj b ((''id'', pid) # gs))
          = Inr (Next (state @ [JObj b ((''id'', pid) # gs)]))
        \<and> array_update fresh state (JObj b [(''id'', pid), (''changes'', changes)])
          = Inr (Next state))
   \<and> draft_eq (JNum n) (JStr s) = False \<and> draft_eq (JStr s) (JNum n) = False
   \<and> strict_eq (JNum n) (JStr s) = False \<and> strict_eq (JStr s) (JNum n) = False
   \<and> (list_all readable state \<and> safe_int n \<longrightarrow>
        array_removeMany fresh state (JArr c [JObj b ((''id'', JStr (show_int n)) # gs)])
          = Inr (Next (filter (\<lambda>item. toId (prop_of item ''id'') \<noteq> Inr (show_int n)) state))
        \<and> array_removeMany fresh state (JArr c [JObj b ((''id'', JNum n) # gs)])
          = Inr (Next (filter (\<lambda>item. toId (prop_of item ''id'') \<noteq> Inr (show_int n)) state))
        \<and> toId (JNum n) = Inr (show_int n) \<and> toId (JStr (show_int n)) = Inr (show_int n))
   \<and> show_int 1 = ''1''"
proof (intro conjI impI)
  assume "\<forall>item \<in> set state. \<not> nullish item"
  then show "array_remove fresh state (JObj b ((''id'', pid) # gs))
        = Inr (Next (filter (\<lambda>item. \<not> draft_eq (prop_of item ''id'') pid) state))"
    by (simp add: array_remove_def in_object_def filter_id_differs_total)
next
  assume h: "(\<forall>item \<in> set pre. \<not> nullish item \<and> \<not> draft_eq (prop_of item ''id'') pid) \<and>
       \<not> nullish x \<and> draft_eq (prop_of x ''id'') pid"
  then have idx: "findIndex_id (pre @ x # post) pid (pre @ x # post) = Inr (Some (length pre))"
    by (simp add: findIndex_id_first)
  then show "array_upsert fresh (pre @ x # post) (JObj b ((''id'', pid) # gs))
          = Inr (Next (pre @ JObj b ((''id'', pid) # gs) # post))"
    by (simp add: array_upsert_def)
  from h have "x \<noteq> JNull" by auto
  with idx show "array_update fresh (pre @ x # post) (JObj b [(''id'', pid), (''changes'', changes)])
          = Inr (Next (if typeof x = TObject
                       then pre @ JObj fresh (spread_merge x changes) # post
                       else pre @ x # post))"
    by (simp add: array_update_def in_object_def)
next
  assume "\<forall>item \<in> set state. \<not> nullish item \<and> \<not> draft_eq (prop_of item ''id'') pid"
  then have idx: "findIndex_id state pid state = Inr None"
    by (rule findIndex_id_none)
  then show "array_upsert fresh state (JObj b ((''id'', pid) # gs))
          = Inr (Next (state @ [JObj b ((''id'', pid) # gs)]))"
    by (simp add: array_upsert_def)
  from idx show "array_update fresh state (JObj b [(''id'', pid), (''changes'', changes)])
          = Inr (Next state)"
    by (simp add: array_update_def in_object_def)
next
  assume h: "list_all readable state \<and> safe_int n"
  then show "array_removeMany fresh state (JArr c [JObj b ((''id'', JStr (show_int n)) # gs)])
          = Inr (Next (filter (\<lambda>item. toId (prop_of item ''id'') \<noteq> Inr (show_int n)) state))"
    by (simp add: array_removeMany_def isIds_def in_object_def id_key_def get_prop_def toId_def
          filter_id_not_in_readable)
  from h show "array_removeMany fresh state (JArr c [JObj b ((''id'', JNum n) # gs)])
          = Inr (Next (filter (\<lambda>item. toId (prop_of item ''id'') \<noteq> Inr (show_int n)) state))"
    by (simp add: array_removeMany_def isIds_def in_object_def id_key_def get_prop_def toId_def
          filter_id_not_in_readable)
  from h show "toId (JNum n) = Inr (show_int n)" by (simp add: toId_def)
  show "toId (JStr (show_int n)) = Inr (show_int n)" by (simp add: toId_def)
qed (simp_all add: show_int_1)

text \<open>
  The theorem at the collection \<^verbatim>\<open>[{id: 1}, {id: "1"}, {id: 2}]\<close> and the payload id
  \<^verbatim>\<open>"1"\<close>: \<^verbatim>\<open>remove\<close> drops the second element only, \<^verbatim>\<open>upsert\<close> and \<^verbatim>\<open>update\<close> write
  the second element, \<^verbatim>\<open>removeMany\<close> drops the first and the second; and at the
  collection \<^verbatim>\<open>[{id: 1}]\<close>, which \<^verbatim>\<open>upsert\<close> doubles and \<^verbatim>\<open>update\<close> leaves alone.
\<close>

theorem id_comparison_differs_witness:
  "array_remove 0 [JObj 1 [(''id'', JNum 1)], JObj 2 [(''id'', JStr ''1'')], JObj 3 [(''id'', JNum 2)]]
       (JObj 4 [(''id'', JStr ''1'')])
     = Inr (Next [JObj 1 [(''id'', JNum 1)], JObj 3 [(''id'', JNum 2)]])
   \<and> array_upsert 0 [JObj 1 [(''id'', JNum 1)], JObj 2 [(''id'', JStr ''1'')], JObj 3 [(''id'', JNum 2)]]
       (JObj 4 [(''id'', JStr ''1'')])
     = Inr (Next [JObj 1 [(''id'', JNum 1)], JObj 4 [(''id'', JStr ''1'')], JObj 3 [(''id'', JNum 2)]])
   \<and> array_update 0 [JObj 1 [(''id'', JNum 1)], JObj 2 [(''id'', JStr ''1'')], JObj 3 [(''id'', JNum 2)]]
       (JObj 4 [(''id'', JStr ''1''), (''changes'', JObj 5 [(''x'', JNum 9)])])
     = Inr (Next [JObj 1 [(''id'', JNum 1)], JObj 0 [(''id'', JStr ''1''), (''x'', JNum 9)],
                  JObj 3 [(''id'', JNum 2)]])
   \<and> array_upsert 0 [JObj 1 [(''id'', JNum 1)]] (JObj 4 [(''id'', JStr ''1'')])
     = Inr (Next [JObj 1 [(''id'', JNum 1)], JObj 4 [(''id'', JStr ''1'')]])
   \<and> array_update 0 [JObj 1 [(''id'', JNum 1)]]
       (JObj 4 [(''id'', JStr ''1''), (''changes'', JObj 5 [(''x'', JNum 9)])])
     = Inr (Next [JObj 1 [(''id'', JNum 1)]])
   \<and> array_removeMany 0 [JObj 1 [(''id'', JNum 1)], JObj 2 [(''id'', JStr ''1'')], JObj 3 [(''id'', JNum 2)]]
       (JArr 6 [JObj 4 [(''id'', JStr ''1'')]])
     = Inr (Next [JObj 3 [(''id'', JNum 2)]])
   \<and> array_removeMany 0 [JObj 1 [(''id'', JNum 1)], JObj 2 [(''id'', JStr ''1'')], JObj 3 [(''id'', JNum 2)]]
       (JArr 6 [JObj 4 [(''id'', JNum 1)]])
     = Inr (Next [JObj 3 [(''id'', JNum 2)]])"
proof -
  let ?a = "JObj 1 [(''id'', JNum 1)]"
  let ?b = "JObj 2 [(''id'', JStr ''1'')]"
  let ?c = "JObj 3 [(''id'', JNum 2)]"
  have two: "show_int 2 = ''2''"
    by (simp add: show_int_def show_nat.simps digit_char_def)
  have readable: "list_all readable [?a, ?b, ?c]"
    by (simp add: readable_def toId_def safe_int_def)
  note three = id_comparison_differs [where state = "[?a, ?b, ?c]" and pre = "[?a]" and x = ?b
      and post = "[?c]" and pid = "JStr ''1''" and fresh = 0 and b = 4 and gs = "[]"
      and changes = "JObj 5 [(''x'', JNum 9)]" and n = 1 and c = 6]
  note one = id_comparison_differs [where state = "[?a]" and pid = "JStr ''1''" and fresh = 0
      and b = 4 and gs = "[]" and changes = "JObj 5 [(''x'', JNum 9)]"]
  from three readable one show ?thesis
    by (simp add: show_int_1 two toId_def safe_int_def spread_merge_def)
qed

subsection \<open>Names outside the vocabulary\<close>

lemma foldl_skip:
  assumes "\<And>acc x. \<not> P x \<Longrightarrow> f acc x = acc"
  shows "foldl f acc xs = foldl f acc (filter P xs)"
  using assms by (induction xs arbitrary: acc) auto

lemma array_case_recognized: "isArrayReducer r \<Longrightarrow> \<exists>f. array_case r = Some f"
  by (auto simp: isArrayReducer_def ARRAY_REDUCERS_def array_case_def)

lemma entity_case_recognized: "isEntityReducer r \<Longrightarrow> \<exists>f. entity_case r = Some f"
  by (auto simp: isEntityReducer_def ENTITY_REDUCERS_def entity_case_def)

lemma keys_foldl_update:
  assumes "\<And>x. P x \<Longrightarrow> \<exists>f. c x = Some f"
  shows "fst ` set (foldl (\<lambda>m x. if \<not> P x then m
                               else (case c x of None \<Rightarrow> m | Some f \<Rightarrow> AList.update (k x) f m))
                      acc xs)
         = fst ` set acc \<union> k ` {x \<in> set xs. P x}"
proof (induction xs arbitrary: acc)
  case Nil
  then show ?case by simp
next
  case (Cons x xs)
  show ?case
  proof (cases "P x")
    case True
    then obtain f where "c x = Some f" using assms by blast
    with True show ?thesis by (auto simp: Cons.IH dom_update)
  next
    case False
    then show ?thesis by (auto simp: Cons.IH)
  qed
qed

lemma array_keys:
  "fst ` set (createArrayReducers names opts)
     = (\<lambda>r. actionKey (options_name opts) r (options_naming opts)) ` {r \<in> set names. isArrayReducer r}"
  unfolding createArrayReducers_def
  by (subst keys_foldl_update) (auto intro: array_case_recognized)

lemma entity_keys:
  "fst ` set (createEntityReducers names opts)
     = (\<lambda>r. actionKey (options_name opts) r (options_naming opts)) ` {r \<in> set names. isEntityReducer r}"
  unfolding createEntityReducers_def
  by (subst keys_foldl_update) (auto intro: entity_case_recognized)

text \<open>
  Claim C10. The builders are total functions, so they do not raise. A requested name
  outside the vocabulary of the kind contributes nothing: the map built from a request
  is the map built from the request without the unrecognized names, so the entries of
  the recognized names are unaffected, and the keys of the map are exactly the keys of
  the recognized names that were requested. Under the short naming (also the default)
  the unrecognized name is no key of the map; under the prefixed naming the key it
  would have had, the container's name followed by the capitalized name, is no key of
  the map unless a name of the vocabulary capitalizes to the same word.
\<close>

theorem unknown_names_dropped:
  "createArrayReducers names opts = createArrayReducers (filter isArrayReducer names) opts
   \<and> createEntityReducers names opts = createEntityReducers (filter isEntityReducer names) opts
   \<and> fst ` set (createArrayReducers names opts)
       = (\<lambda>r. actionKey (options_name opts) r (options_naming opts)) ` {r \<in> set names. isArrayReducer r}
   \<and> fst ` set (createEntityReducers names opts)
       = (\<lambda>r. actionKey (options_name opts) r (options_naming opts)) ` {r \<in> set names. isEntityReducer r}
   \<and> (\<not> isArrayReducer bogus \<and> options_naming opts \<noteq> Some Prefixed \<longrightarrow>
        bogus \<notin> fst ` set (createArrayReducers names opts))
   \<and> (\<not> isEntityReducer bogus \<and> options_naming opts \<noteq> Some Prefixed \<longrightarrow>
        bogus \<notin> fst ` set (createEntityReducers names opts))
   \<and> (options_naming opts = Some Prefixed \<and>
        (\<forall>r \<in> set ARRAY_REDUCERS. capitalize r \<noteq> capitalize bogus) \<longrightarrow>
        options_name opts @ capitalize bogus \<notin> fst ` set (createArrayReducers names opts))
   \<and> (options_naming opts = Some Prefixed \<and>
        (\<forall>r \<in> set ENTITY_REDUCERS. capitalize r \<noteq> capitalize bogus) \<longrightarrow>
        options_name opts @ capitalize bogus \<notin> fst ` set (createEntityReducers names opts))"
proof (intro conjI)
  show "createArrayReducers names opts = createArrayReducers (filter isArrayReducer names) opts"
    unfolding createArrayReducers_def by (rule foldl_skip) simp
  show "createEntityReducers names opts = createEntityReducers (filter isEntityReducer names) opts"
    unfolding createEntityReducers_def by (rule foldl_skip) simp
  show "\<not> isArrayReducer bogus \<and> options_naming opts \<noteq> Some Prefixed \<longrightarrow>
        bogus \<notin> fst ` set (createArrayReducers names opts)"
    by (auto simp: array_keys actionKey_def)
  show "\<not> isEntityReducer bogus \<and> options_naming opts \<noteq> Some Prefixed \<longrightarrow>
        bogus \<notin> fst ` set (createEntityReducers names opts)"
    by (auto simp: entity_keys actionKey_def)
  show "options_naming opts = Some Prefixed \<and>
        (\<forall>r \<in> set ARRAY_REDUCERS. capitalize r \<noteq> capitalize bogus) \<longrightarrow>
        options_name opts @ capitalize bogus \<notin> fst ` set (createArrayReducers names opts)"
    by (auto simp: array_keys actionKey_def isArrayReducer_def)
  show "options_naming opts = Some Prefixed \<and>
        (\<forall>r \<in> set ENTITY_REDUCERS. capitalize r \<noteq> capitalize bogus) \<longrightarrow>
        options_name opts @ capitalize bogus \<notin> fst ` set (createEntityReducers names opts)"
    by (auto simp: entity_keys actionKey_def isEntityReducer_def)
qed (rule array_keys entity_keys)+

text \<open>
  The theorem at the requests of the tests: \<^verbatim>\<open>bogus\<close> among the names of a collection
  under both namings, \<^verbatim>\<open>fakeAction\<close> among the names of an index.
\<close>

theorem unknown_names_dropped_witness:
  "createArrayReducers [''add'', ''bogus'', ''clear''] (Some \<lparr>name = ''items'', actionNaming = Some Short\<rparr>)
     = createArrayReducers [''add'', ''clear''] (Some \<lparr>name = ''items'', actionNaming = Some Short\<rparr>)
   \<and> ''bogus'' \<notin> fst ` set (createArrayReducers [''add'', ''bogus'', ''clear'']
                               (Some \<lparr>name = ''items'', actionNaming = Some Short\<rparr>))
   \<and> ''itemsBogus'' \<notin> fst ` set (createArrayReducers [''add'', ''bogus'', ''clear'']
                               (Some \<lparr>name = ''items'', actionNaming = Some Prefixed\<rparr>))
   \<and> ''fakeAction'' \<notin> fst ` set (createEntityReducers [''add'', ''remove'', ''fakeAction'']
                               (Some \<lparr>name = ''users'', actionNaming = None\<rparr>))"
proof (intro conjI)
  note short = unknown_names_dropped [of "[''add'', ''bogus'', ''clear'']"
          "Some \<lparr>name = ''items'', actionNaming = Some Short\<rparr>" "''bogus''"]
  note prefixed = unknown_names_dropped [of "[''add'', ''bogus'', ''clear'']"
          "Some \<lparr>name = ''items'', actionNaming = Some Prefixed\<rparr>" "''bogus''"]
  note users = unknown_names_dropped [of "[''add'', ''remove'', ''fakeAction'']"
          "Some \<lparr>name = ''users'', actionNaming = None\<rparr>" "''fakeAction''"]
  have not_array: "\<not> isArrayReducer ''bogus''"
    by (simp add: isArrayReducer_def ARRAY_REDUCERS_def)
  have not_entity: "\<not> isEntityReducer ''fakeAction''"
    by (simp add: isEntityReducer_def ENTITY_REDUCERS_def)
  have kept: "filter isArrayReducer [''add'', ''bogus'', ''clear''] = [''add'', ''clear'']"
    by (simp add: isArrayReducer_def ARRAY_REDUCERS_def)
  have caps: "\<forall>r \<in> set ARRAY_REDUCERS. capitalize r \<noteq> capitalize ''bogus''"
    by (simp add: ARRAY_REDUCERS_def toUpperCase_def)
  show "createArrayReducers [''add'', ''bogus'', ''clear''] (Some \<lparr>name = ''items'', actionNaming = Some Short\<rparr>)
     = createArrayReducers [''add'', ''clear''] (Some \<lparr>name = ''items'', actionNaming = Some Short\<rparr>)"
    using short [THEN conjunct1] kept by simp
  show "''bogus'' \<notin> fst ` set (createArrayReducers [''add'', ''bogus'', ''clear'']
                               (Some \<lparr>name = ''items'', actionNaming = Some Short\<rparr>))"
    using short [THEN conjunct2, THEN conjunct2, THEN conjunct2, THEN conjunct2, THEN conjunct1]
      not_array by (simp add: options_naming_def)
  show "''itemsBogus'' \<notin> fst ` set (createArrayReducers [''add'', ''bogus'', ''clear'']
                               (Some \<lparr>name = ''items'', actionNaming = Some Prefixed\<rparr>))"
    using prefixed [THEN conjunct2, THEN conjunct2, THEN conjunct2, THEN conjunct2, THEN conjunct2,
      THEN conjunct2, THEN conjunct1] caps
    by (simp add: options_naming_def options_name_def toUpperCase_def)
  show "''fakeAction'' \<notin> fst ` set (createEntityReducers [''add'', ''remove'', ''fakeAction'']
                               (Some \<lparr>name = ''users'', actionNaming = None\<rparr>))"
    using users [THEN conjunct2, THEN conjunct2, THEN conjunct2, THEN conjunct2, THEN conjunct2,
      THEN conjunct1] not_entity by (simp add: options_naming_def)
qed


subsection \<open>The lifecycle overlay\<close>

lemma map_of_cases:
  "map_of (addAsyncExtraReducers thunks) (t, ph) =
     (if t \<in> snd ` set thunks
      then Some (case ph of on_pending \<Rightarrow> pending_case
                          | on_fulfilled \<Rightarrow> fulfilled_case
                          | on_rejected \<Rightarrow> rejected_case)
      else None)"
  unfolding addAsyncExtraReducers_def
  by (induction thunks) (auto split: lifecycle.splits)

lemma notify_registered:
  assumes "t \<in> snd ` set thunks"
  shows "notify (addAsyncExtraReducers thunks) state (t, on_pending) action = pending_case state action"
    and "notify (addAsyncExtraReducers thunks) state (t, on_fulfilled) action = fulfilled_case state action"
    and "notify (addAsyncExtraReducers thunks) state (t, on_rejected) action = rejected_case state action"
  using assms by (simp_all add: notify_def map_of_cases)

lemma pending_fields:
  "loading (pending_case state action) = True"
  "error (pending_case state action) = JNull"
  "status (pending_case state action) = pending"
  by (simp_all add: pending_case_def)

lemma fulfilled_fields:
  "loading (fulfilled_case state action) = False"
  "error (fulfilled_case state action) = JNull"
  "status (fulfilled_case state action) = fulfilled"
  by (simp_all add: fulfilled_case_def)

lemma rejected_fields:
  "loading (rejected_case state action) = False"
  "status (rejected_case state action) = rejected"
  "error (rejected_case state action) =
     (if \<not> nullish (prop_of action ''payload'') then prop_of action ''payload''
      else if \<not> nullish (prop_of action ''error'') \<and>
              \<not> nullish (prop_of (prop_of action ''error'') ''message'')
           then prop_of (prop_of action ''error'') ''message''
           else JStr ''Request failed'')"
  by (auto simp: rejected_case_def nullish_or_def)

lemma registered_fields:
  "\<forall>t \<in> snd ` set ts. \<forall>state action.
     loading (notify (addAsyncExtraReducers ts) state (t, on_pending) action) = True \<and>
     error (notify (addAsyncExtraReducers ts) state (t, on_pending) action) = JNull \<and>
     status (notify (addAsyncExtraReducers ts) state (t, on_pending) action) = pending \<and>
     loading (notify (addAsyncExtraReducers ts) state (t, on_fulfilled) action) = False \<and>
     error (notify (addAsyncExtraReducers ts) state (t, on_fulfilled) action) = JNull \<and>
     status (notify (addAsyncExtraReducers ts) state (t, on_fulfilled) action) = fulfilled \<and>
     loading (notify (addAsyncExtraReducers ts) state (t, on_rejected) action) = False \<and>
     status (notify (addAsyncExtraReducers ts) state (t, on_rejected) action) = rejected \<and>
     error (notify (addAsyncExtraReducers ts) state (t, on_rejected) action) =
       (if \<not> nullish (prop_of action ''payload'') then prop_of action ''payload''
        else if \<not> nullish (prop_of action ''error'') \<and>
                \<not> nullish (prop_of (prop_of action ''error'') ''message'')
             then prop_of (prop_of action ''error'') ''message''
             else JStr ''Request failed'')"
  by (intro ballI allI conjI)
     (simp_all only: notify_registered pending_fields fulfilled_fields rejected_fields)

text \<open>
  Claim C4. A slice of either kind configured with the task descriptors \<open>ts\<close>, at
  least one, has an initial state with \<^verbatim>\<open>loading\<close> false, \<^verbatim>\<open>error\<close> null and
  \<^verbatim>\<open>status\<close> idle, and its reducer handles the notifications of every descriptor of
  \<open>ts\<close>, from every state: the started notification sets \<^verbatim>\<open>loading\<close> true,
  \<^verbatim>\<open>error\<close> null, \<^verbatim>\<open>status\<close> pending; the succeeded notification sets \<^verbatim>\<open>loading\<close>
  false, \<^verbatim>\<open>error\<close> null, \<^verbatim>\<open>status\<close> fulfilled; the failed notification sets
  \<^verbatim>\<open>loading\<close> false, \<^verbatim>\<open>status\<close> rejected and \<^verbatim>\<open>error\<close> to the rejection payload when
  it is neither null nor undefined, else to the failure object's message when there
  is one, else to \<^verbatim>\<open>Request failed\<close>. The three fields after a notification do not
  depend on the state before it nor on the descriptor: they are shared, and the last
  notification wins.
\<close>

theorem lifecycle_fields:
  "(asyncThunks acfg = Some ts \<and> ts \<noteq> [] \<longrightarrow>
     (\<exists>s rs cs sel. createAutoSlice_array acfg = Async_slice s rs cs sel \<and>
        loading s = False \<and> error s = JNull \<and> status s = idle \<and>
        (\<forall>t \<in> snd ` set ts. \<forall>state action.
           loading (notify cs state (t, on_pending) action) = True \<and>
           error (notify cs state (t, on_pending) action) = JNull \<and>
           status (notify cs state (t, on_pending) action) = pending \<and>
           loading (notify cs state (t, on_fulfilled) action) = False \<and>
           error (notify cs state (t, on_fulfilled) action) = JNull \<and>
           status (notify cs state (t, on_fulfilled) action) = fulfilled \<and>
           loading (notify cs state (t, on_rejected) action) = False \<and>
           status (notify cs state (t, on_rejected) action) = rejected \<and>
           error (notify cs state (t, on_rejected) action) =
             (if \<not> nullish (prop_of action ''payload'') then prop_of action ''payload''
              else if \<not> nullish (prop_of action ''error'') \<and>
                      \<not> nullish (prop_of (prop_of action ''error'') ''message'')
                   then prop_of (prop_of action ''error'') ''message''
                   else JStr ''Request failed''))))
   \<and> (asyncThunks ecfg = Some ts \<and> ts \<noteq> [] \<longrightarrow>
     (\<exists>s rs cs. createAutoSlice_entity ecfg = Async_entity_slice s rs cs \<and>
        loading s = False \<and> error s = JNull \<and> status s = idle \<and>
        (\<forall>t \<in> snd ` set ts. \<forall>state action.
           loading (notify cs state (t, on_pending) action) = True \<and>
           error (notify cs state (t, on_pending) action) = JNull \<and>
           status (notify cs state (t, on_pending) action) = pending \<and>
           loading (notify cs state (t, on_fulfilled) action) = False \<and>
           error (notify cs state (t, on_fulfilled) action) = JNull \<and>
           status (notify cs state (t, on_fulfilled) action) = fulfilled \<and>
           loading (notify cs state (t, on_rejected) action) = False \<and>
           status (notify cs state (t, on_rejected) action) = rejected \<and>
           error (notify cs state (t, on_rejected) action) =
             (if \<not> nullish (prop_of action ''payload'') then prop_of action ''payload''
              else if \<not> nullish (prop_of action ''error'') \<and>
                      \<not> nullish (prop_of (prop_of action ''error'') ''message'')
                   then prop_of (prop_of action ''error'') ''message''
                   else JStr ''Request failed''))))"
proof (intro conjI impI)
  assume "asyncThunks acfg = Some ts \<and> ts \<noteq> []"
  then have "createAutoSlice_array acfg =
      Async_slice (asyncInitialState (initialState acfg))
        (wrappedReducers (merge_custom (name acfg) (actionNaming acfg) (customReducers acfg)
           (createArrayReducers (reducers acfg) (Some (options.truncate acfg)))))
        (addAsyncExtraReducers ts)
        \<lparr>selectAll = (\<lambda>state. data state),
         selectTotal = (\<lambda>state. length (data state)),
         selectLoading = (\<lambda>state. loading state),
         selectError = (\<lambda>state. error state),
         selectStatus = (\<lambda>state. status state)\<rparr>"
    by (simp add: createAutoSlice_array_def Let_def hasAsync_def thunks_of_def)
  moreover have "loading (asyncInitialState (initialState acfg)) = False"
    "error (asyncInitialState (initialState acfg)) = JNull"
    "status (asyncInitialState (initialState acfg)) = idle"
    by (simp_all add: asyncInitialState_def DEFAULT_ASYNC_STATE_def)
  ultimately show "\<exists>s rs cs sel. createAutoSlice_array acfg = Async_slice s rs cs sel \<and>
        loading s = False \<and> error s = JNull \<and> status s = idle \<and>
        (\<forall>t \<in> snd ` set ts. \<forall>state action.
           loading (notify cs state (t, on_pending) action) = True \<and>
           error (notify cs state (t, on_pending) action) = JNull \<and>
           status (notify cs state (t, on_pending) action) = pending \<and>
           loading (notify cs state (t, on_fulfilled) action) = False \<and>
           error (notify cs state (t, on_fulfilled) action) = JNull \<and>
           status (notify cs state (t, on_fulfilled) action) = fulfilled \<and>
           loading (notify cs state (t, on_rejected) action) = False \<and>
           status (notify cs state (t, on_rejected) action) = rejected \<and>
           error (notify cs state (t, on_rejected) action) =
             (if \<not> nullish (prop_of action ''payload'') then prop_of action ''payload''
              else if \<not> nullish (prop_of action ''error'') \<and>
                      \<not> nullish (prop_of (prop_of action ''error'') ''message'')
                   then prop_of (prop_of action ''error'') ''message''
                   else JStr ''Request failed''))"
    using registered_fields [of ts] by blast
next
  assume "asyncThunks ecfg = Some ts \<and> ts \<noteq> []"
  then have "createAutoSlice_entity ecfg =
      Async_entity_slice (entityAsyncInitialState (initialState ecfg))
        (merge_custom (name ecfg) (actionNaming ecfg) (customReducers ecfg)
           (createEntityReducers (reducers ecfg) (Some (options.truncate ecfg))))
        (addAsyncExtraReducers ts)"
    by (simp add: createAutoSlice_entity_def Let_def hasAsync_def thunks_of_def)
  moreover have "loading (entityAsyncInitialState (initialState ecfg)) = False"
    "error (entityAsyncInitialState (initialState ecfg)) = JNull"
    "status (entityAsyncInitialState (initialState ecfg)) = idle"
    by (simp_all add: entityAsyncInitialState_def DEFAULT_ASYNC_STATE_def AsyncStateFields.defs)
  ultimately show "\<exists>s rs cs. createAutoSlice_entity ecfg = Async_entity_slice s rs cs \<and>
        loading s = False \<and> error s = JNull \<and> status s = idle \<and>
        (\<forall>t \<in> snd ` set ts. \<forall>state action.
           loading (notify cs state (t, on_pending) action) = True \<and>
           error (notify cs state (t, on_pending) action) = JNull \<and>
           status (notify cs state (t, on_pending) action) = pending \<and>
           loading (notify cs state (t, on_fulfilled) action) = False \<and>
           error (notify cs state (t, on_fulfilled) action) = JNull \<and>
           status (notify cs state (t, on_fulfilled) action) = fulfilled \<and>
           loading (notify cs state (t, on_rejected) action) = False \<and>
           status (notify cs state (t, on_rejected) action) = rejected \<and>
           error (notify cs state (t, on_rejected) action) =
             (if \<not> nullish (prop_of action ''payload'') then prop_of action ''payload''
              else if \<not> nullish (prop_of action ''error'') \<and>
                      \<not> nullish (prop_of (prop_of action ''error'') ''message'')
                   then prop_of (prop_of action ''error'') ''message''
                   else JStr ''Request failed''))"
    using registered_fields [of ts] by blast
qed

text \<open>
  The theorem at the slices of the tests: a collection and an index with one task
  each. The slice starts idle; a started notification sets it loading, and the
  rejection \<^verbatim>\<open>Network error\<close> after it leaves that reason.
\<close>

theorem lifecycle_fields_witness:
  "(\<exists>s rs cs sel. createAutoSlice_array
        \<lparr>name = ''items'', actionNaming = None, initialState = [], reducers = [''add''],
         customReducers = None, asyncThunks = Some [(''fetchItems'', ''items/fetch'')]\<rparr>
      = Async_slice s rs cs sel \<and> loading s = False \<and> error s = JNull \<and> status s = idle \<and>
      loading (notify cs s (''items/fetch'', on_pending) (JObj 0 [])) = True \<and>
      status (notify cs (notify cs s (''items/fetch'', on_pending) (JObj 0 []))
                (''items/fetch'', on_fulfilled) (JObj 1 [(''payload'', JArr 2 [])])) = fulfilled)
   \<and> (\<exists>s rs cs. createAutoSlice_entity
        \<lparr>name = ''users'', actionNaming = None, initialState = getEmptyEntityState, reducers = [],
         customReducers = None, asyncThunks = Some [(''fetchUsersReject'', ''users/fetchReject'')]\<rparr>
      = Async_entity_slice s rs cs \<and> loading s = False \<and> error s = JNull \<and> status s = idle \<and>
      error (notify cs (notify cs s (''users/fetchReject'', on_pending) (JObj 0 []))
               (''users/fetchReject'', on_rejected)
               (JObj 1 [(''payload'', JStr ''Network error''),
                        (''error'', JObj 2 [(''message'', JStr ''Rejected'')])]))
        = JStr ''Network error'')"
proof (intro conjI)
  let ?acfg = "\<lparr>name = ''items'', actionNaming = None, initialState = [], reducers = [''add''],
         customReducers = None, asyncThunks = Some [(''fetchItems'', ''items/fetch'')]\<rparr>"
  from lifecycle_fields [where acfg = ?acfg and ts = "[(''fetchItems'', ''items/fetch'')]",
      THEN conjunct1]
  obtain s rs cs sel where slice: "createAutoSlice_array ?acfg = Async_slice s rs cs sel"
    and init: "loading s = False" "error s = JNull" "status s = idle"
    and cases: "\<forall>t \<in> snd ` set [(''fetchItems'', ''items/fetch'')]. \<forall>state action.
           loading (notify cs state (t, on_pending) action) = True \<and>
           error (notify cs state (t, on_pending) action) = JNull \<and>
           status (notify cs state (t, on_pending) action) = pending \<and>
           loading (notify cs state (t, on_fulfilled) action) = False \<and>
           error (notify cs state (t, on_fulfilled) action) = JNull \<and>
           status (notify cs state (t, on_fulfilled) action) = fulfilled \<and>
           loading (notify cs state (t, on_rejected) action) = False \<and>
           status (notify cs state (t, on_rejected) action) = rejected \<and>
           error (notify cs state (t, on_rejected) action) =
             (if \<not> nullish (prop_of action ''payload'') then prop_of action ''payload''
              else if \<not> nullish (prop_of action ''error'') \<and>
                      \<not> nullish (prop_of (prop_of action ''error'') ''message'')
                   then prop_of (prop_of action ''error'') ''message''
                   else JStr ''Request failed'')"
    by auto
  from cases have "loading (notify cs s (''items/fetch'', on_pending) (JObj 0 [])) = True"
    and "status (notify cs (notify cs s (''items/fetch'', on_pending) (JObj 0 []))
                (''items/fetch'', on_fulfilled) (JObj 1 [(''payload'', JArr 2 [])])) = fulfilled"
    by simp_all
  with slice init show "\<exists>s rs cs sel. createAutoSlice_array ?acfg
      = Async_slice s rs cs sel \<and> loading s = False \<and> error s = JNull \<and> status s = idle \<and>
      loading (notify cs s (''items/fetch'', on_pending) (JObj 0 [])) = True \<and>
      status (notify cs (notify cs s (''items/fetch'', on_pending) (JObj 0 []))
                (''items/fetch'', on_fulfilled) (JObj 1 [(''payload'', JArr 2 [])])) = fulfilled"
    by blast
next
  let ?ecfg = "\<lparr>name = ''users'', actionNaming = None, initialState = getEmptyEntityState,
         reducers = [], customReducers = None,
         asyncThunks = Some [(''fetchUsersReject'', ''users/fetchReject'')]\<rparr>"
  let ?act = "JObj 1 [(''payload'', JStr ''Network error''),
                      (''error'', JObj 2 [(''message'', JStr ''Rejected'')])]"
  from lifecycle_fields [where ecfg = ?ecfg and ts = "[(''fetchUsersReject'', ''users/fetchReject'')]",
      THEN conjunct2]
  obtain s rs cs where slice: "createAutoSlice_entity ?ecfg = Async_entity_slice s rs cs"
    and init: "loading s = False" "error s = JNull" "status s = idle"
    and cases: "\<forall>t \<in> snd ` set [(''fetchUsersReject'', ''users/fetchReject'')]. \<forall>state action.
           loading (notify cs state (t, on_pending) action) = True \<and>
           error (notify cs state (t, on_pending) action) = JNull \<and>
           status (notify cs state (t, on_pending) action) = pending \<and>
           loading (notify cs state (t, on_fulfilled) action) = False \<and>
           error (notify cs state (t, on_fulfilled) action) = JNull \<and>
           status (notify cs state (t, on_fulfilled) action) = fulfilled \<and>
           loading (notify cs state (t, on_rejected) action) = False \<and>
           status (notify cs state (t, on_rejected) action) = rejected \<and>
           error (notify cs state (t, on_rejected) action) =
             (if \<not> nullish (prop_of action ''payload'') then prop_of action ''payload''
              else if \<not> nullish (prop_of action ''error'') \<and>
                      \<not> nullish (prop_of (prop_of action ''error'') ''message'')
                   then prop_of (prop_of action ''error'') ''message''
                   else JStr ''Request failed'')"
    by auto
  from cases have "error (notify cs (notify cs s (''users/fetchReject'', on_pending) (JObj 0 []))
               (''users/fetchReject'', on_rejected) ?act)
      = (if \<not> nullish (prop_of ?act ''payload'') then prop_of ?act ''payload''
           else if \<not> nullish (prop_of ?act ''error'') \<and>
                   \<not> nullish (prop_of (prop_of ?act ''error'') ''message'')
                then prop_of (prop_of ?act ''error'') ''message''
                else JStr ''Request failed'')"
    by simp
  then have "error (notify cs (notify cs s (''users/fetchReject'', on_pending) (JObj 0 []))
               (''users/fetchReject'', on_rejected) ?act) = JStr ''Network error''"
    by simp
  with slice init show "\<exists>s rs cs. createAutoSlice_entity ?ecfg
      = Async_entity_slice s rs cs \<and> loading s = False \<and> error s = JNull \<and> status s = idle \<and>
      error (notify cs (notify cs s (''users/fetchReject'', on_pending) (JObj 0 []))
               (''users/fetchReject'', on_rejected) ?act)
        = JStr ''Network error''"
    by blast
qed

subsection \<open>The collection under the lifecycle overlay\<close>

lemma wrapped_member:
  "(key, w) \<in> set (wrappedReducers merged) \<Longrightarrow>
     \<exists>reducer. (key, reducer) \<in> set merged \<and> w = wrap reducer"
  by (auto simp: wrappedReducers_def)

lemma wrap_outcome:
  "(case wrap reducer fresh state p of
      Inl e \<Rightarrow> reducer fresh (data state) p = Inl e
    | Inr state' \<Rightarrow>
        reducer fresh (data state) p = Inr (data state') \<and>
        loading state' = loading state \<and> error state' = error state \<and>
        status state' = status state)"
  by (simp add: wrap_def split: sum.splits)

text \<open>
  Claim C8. When the collection kind is configured with at least one task descriptor,
  the state is \<^verbatim>\<open>{data, loading, error, status}\<close> with the initial sequence under
  \<^verbatim>\<open>data\<close>; the slice has one wrapped reducer for each key of the merged map of
  vocabulary and custom reducers, and that wrapped reducer runs the reducer of the key
  on the \<^verbatim>\<open>data\<close> field alone: it raises exactly when the reducer raises on
  \<^verbatim>\<open>data\<close>, and otherwise leaves in \<^verbatim>\<open>data\<close> what the reducer returned and leaves
  \<^verbatim>\<open>loading\<close>, \<^verbatim>\<open>error\<close> and \<^verbatim>\<open>status\<close> as they were. The selectors of that
  slice read the nested fields: read-all is \<^verbatim>\<open>data\<close>, read-count is the length of
  \<^verbatim>\<open>data\<close>, and the three lifecycle selectors are the three lifecycle fields.
  Without a task descriptor the state is the sequence itself, and the selectors of
  the slice read the top level.
\<close>

theorem async_array_frame:
  "(hasAsync (asyncThunks cfg) \<longrightarrow>
     (\<exists>s rs cs sel. createAutoSlice_array cfg = Async_slice s rs cs sel \<and>
        data s = initialState cfg \<and> loading s = False \<and> error s = JNull \<and> status s = idle \<and>
        (\<forall>state. selectAll sel state = data state \<and>
                  selectTotal sel state = length (data state) \<and>
                  selectLoading sel state = loading state \<and>
                  selectError sel state = error state \<and>
                  selectStatus sel state = status state) \<and>
        map fst rs =
          map fst (merge_custom (name cfg) (actionNaming cfg) (customReducers cfg)
                     (createArrayReducers (reducers cfg) (Some (options.truncate cfg)))) \<and>
        (\<forall>(key, w) \<in> set rs.
           \<exists>reducer. (key, reducer) \<in> set (merge_custom (name cfg) (actionNaming cfg) (customReducers cfg)
                     (createArrayReducers (reducers cfg) (Some (options.truncate cfg)))) \<and>
           (\<forall>fresh state p.
              (case w fresh state p of
                 Inl e \<Rightarrow> reducer fresh (data state) p = Inl e
               | Inr state' \<Rightarrow>
                   reducer fresh (data state) p = Inr (data state') \<and>
                   loading state' = loading state \<and> error state' = error state \<and>
                   status state' = status state)))))
   \<and> (\<not> hasAsync (asyncThunks cfg) \<longrightarrow>
       (\<exists>rs sel. createAutoSlice_array cfg = Plain_slice (initialState cfg) rs sel \<and>
          (\<forall>state. selectAll sel state = state \<and> selectTotal sel state = length state)))"
proof (intro conjI impI)
  let ?merged = "merge_custom (name cfg) (actionNaming cfg) (customReducers cfg)
                     (createArrayReducers (reducers cfg) (Some (options.truncate cfg)))"
  assume async: "hasAsync (asyncThunks cfg)"
  let ?sel = "\<lparr>selectAll = (\<lambda>state. data state),
         selectTotal = (\<lambda>state. length (data state)),
         selectLoading = (\<lambda>state. loading state),
         selectError = (\<lambda>state. error state),
         selectStatus = (\<lambda>state. status state)\<rparr>
        :: jsval list AsyncArrayState async_selectors"
  have slice: "createAutoSlice_array cfg =
      Async_slice (asyncInitialState (initialState cfg)) (wrappedReducers ?merged)
        (addAsyncExtraReducers (thunks_of (asyncThunks cfg))) ?sel"
    using async by (simp add: createAutoSlice_array_def Let_def)
  have keys: "map fst (wrappedReducers ?merged) = map fst ?merged"
    by (simp add: wrappedReducers_def comp_def case_prod_unfold)
  have each: "\<forall>(key, w) \<in> set (wrappedReducers ?merged).
           \<exists>reducer. (key, reducer) \<in> set ?merged \<and>
           (\<forall>fresh state p.
              (case w fresh state p of
                 Inl e \<Rightarrow> reducer fresh (data state) p = Inl e
               | Inr state' \<Rightarrow>
                   reducer fresh (data state) p = Inr (data state') \<and>
                   loading state' = loading state \<and> error state' = error state \<and>
                   status state' = status state))"
  proof (clarify)
    fix key w
    assume "(key, w) \<in> set (wrappedReducers ?merged)"
    then obtain reducer where r: "(key, reducer) \<in> set ?merged" "w = wrap reducer"
      using wrapped_member by blast
    show "\<exists>reducer. (key, reducer) \<in> set ?merged \<and>
           (\<forall>fresh state p.
              (case w fresh state p of
                 Inl e \<Rightarrow> reducer fresh (data state) p = Inl e
               | Inr state' \<Rightarrow>
                   reducer fresh (data state) p = Inr (data state') \<and>
                   loading state' = loading state \<and> error state' = error state \<and>
                   status state' = status state))"
      using r wrap_outcome by blast
  qed
  show "\<exists>s rs cs sel. createAutoSlice_array cfg = Async_slice s rs cs sel \<and>
        data s = initialState cfg \<and> loading s = False \<and> error s = JNull \<and> status s = idle \<and>
        (\<forall>state. selectAll sel state = data state \<and>
                  selectTotal sel state = length (data state) \<and>
                  selectLoading sel state = loading state \<and>
                  selectError sel state = error state \<and>
                  selectStatus sel state = status state) \<and>
        map fst rs = map fst ?merged \<and>
        (\<forall>(key, w) \<in> set rs.
           \<exists>reducer. (key, reducer) \<in> set ?merged \<and>
           (\<forall>fresh state p.
              (case w fresh state p of
                 Inl e \<Rightarrow> reducer fresh (data state) p = Inl e
               | Inr state' \<Rightarrow>
                   reducer fresh (data state) p = Inr (data state') \<and>
                   loading state' = loading state \<and> error state' = error state \<and>
                   status state' = status state)))"
    using slice keys each
    by (intro exI [of _ "asyncInitialState (initialState cfg)"] exI [of _ "wrappedReducers ?merged"]
          exI [of _ "addAsyncExtraReducers (thunks_of (asyncThunks cfg))"] exI [of _ ?sel])
       (simp add: asyncInitialState_def DEFAULT_ASYNC_STATE_def)
next
  assume "\<not> hasAsync (asyncThunks cfg)"
  then show "\<exists>rs sel. createAutoSlice_array cfg = Plain_slice (initialState cfg) rs sel \<and>
          (\<forall>state. selectAll sel state = state \<and> selectTotal sel state = length state)"
    by (simp add: createAutoSlice_array_def Let_def)
qed

text \<open>
  The theorem at the slice of the test \<^verbatim>\<open>array: wrapped state\<close>: the reducers \<^verbatim>\<open>add\<close>
  and \<^verbatim>\<open>set\<close>, one task, and \<^verbatim>\<open>add(2)\<close> dispatched while a task is pending; the
  selectors of the slice then read the two elements under \<^verbatim>\<open>data\<close>.
\<close>

theorem async_array_frame_witness:
  "\<exists>s rs cs sel. createAutoSlice_array
        \<lparr>name = ''items'', actionNaming = None, initialState = [JNum 1],
         reducers = [''add'', ''set''], customReducers = None,
         asyncThunks = Some [(''fetchItems'', ''items/fetchItems'')]\<rparr>
      = Async_slice s rs cs sel \<and> data s = [JNum 1] \<and> map fst rs = [''add'', ''set''] \<and>
      selectAll sel \<lparr>loading = True, error = JNull, status = pending, data = [JNum 1, JNum 2]\<rparr>
        = [JNum 1, JNum 2] \<and>
      selectTotal sel \<lparr>loading = True, error = JNull, status = pending, data = [JNum 1, JNum 2]\<rparr>
        = 2 \<and>
      (\<exists>w state'. (''add'', w) \<in> set rs \<and>
         w 0 \<lparr>loading = True, error = JNull, status = pending, data = [JNum 1]\<rparr> (JNum 2)
           = Inr state' \<and>
         data state' = Next [JNum 1, JNum 2] \<and> loading state' = True \<and> error state' = JNull \<and>
         status state' = pending)"
proof -
  let ?cfg = "\<lparr>name = ''items'', actionNaming = None, initialState = [JNum 1],
         reducers = [''add'', ''set''], customReducers = None,
         asyncThunks = Some [(''fetchItems'', ''items/fetchItems'')]\<rparr> :: jsval list config"
  let ?st = "\<lparr>loading = True, error = JNull, status = pending, data = [JNum 1]\<rparr>"
  have merged: "merge_custom (name ?cfg) (actionNaming ?cfg) (customReducers ?cfg)
                  (createArrayReducers (reducers ?cfg) (Some (options.truncate ?cfg)))
                = [(''add'', array_add), (''set'', array_set)]"
    by (simp add: merge_custom_def createArrayReducers_def isArrayReducer_def ARRAY_REDUCERS_def
          array_case_def actionKey_def options_name_def options_naming_def options.defs)
  have "hasAsync (asyncThunks ?cfg)"
    by (simp add: hasAsync_def)
  with async_array_frame [where cfg = ?cfg, THEN conjunct1]
  obtain s rs cs sel where slice: "createAutoSlice_array ?cfg = Async_slice s rs cs sel"
    and init: "data s = [JNum 1]"
    and sels: "\<forall>state. selectAll sel state = data state \<and>
                  selectTotal sel state = length (data state) \<and>
                  selectLoading sel state = loading state \<and>
                  selectError sel state = error state \<and>
                  selectStatus sel state = status state"
    and keys: "map fst rs = [''add'', ''set'']"
    and each: "\<forall>(key, w) \<in> set rs.
           \<exists>reducer. (key, reducer) \<in> set [(''add'', array_add), (''set'', array_set)] \<and>
           (\<forall>fresh state p.
              (case w fresh state p of
                 Inl e \<Rightarrow> reducer fresh (data state) p = Inl e
               | Inr state' \<Rightarrow>
                   reducer fresh (data state) p = Inr (data state') \<and>
                   loading state' = loading state \<and> error state' = error state \<and>
                   status state' = status state))"
    unfolding merged by auto
  from keys obtain w where w: "(''add'', w) \<in> set rs"
    by (cases rs) auto
  with each have run: "case w 0 ?st (JNum 2) of
                 Inl e \<Rightarrow> array_add 0 (data ?st) (JNum 2) = Inl e
               | Inr state' \<Rightarrow>
                   array_add 0 (data ?st) (JNum 2) = Inr (data state') \<and>
                   loading state' = loading ?st \<and> error state' = error ?st \<and>
                   status state' = status ?st"
    by fastforce
  then obtain state' where "w 0 ?st (JNum 2) = Inr state'"
    "data state' = Next [JNum 1, JNum 2]" "loading state' = True" "error state' = JNull"
    "status state' = pending"
    by (cases "w 0 ?st (JNum 2)") (auto simp: array_add_def)
  with w have "\<exists>w state'. (''add'', w) \<in> set rs \<and>
         w 0 ?st (JNum 2) = Inr state' \<and>
         data state' = Next [JNum 1, JNum 2] \<and> loading state' = True \<and> error state' = JNull \<and>
         status state' = pending"
    by (intro exI [of _ w] exI [of _ state']) simp
  with slice init keys sels show ?thesis
    by (intro exI [of _ s] exI [of _ rs] exI [of _ cs] exI [of _ sel]) simp
qed


subsection \<open>Updating a collection\<close>

lemma map_of_foldl_update:
  "distinct (map fst ys) \<Longrightarrow>
   map_of (foldl (\<lambda>acc (k, v). AList.update k v acc) xs ys) = map_of xs ++ map_of ys"
proof (induction ys arbitrary: xs)
  case Nil
  then show ?case by simp
next
  case (Cons y ys)
  obtain k v where y: "y = (k, v)" by (cases y)
  from Cons.prems y have "k \<notin> fst ` set ys" "distinct (map fst ys)" by auto
  then have "map_of ys k = None" by (simp add: map_of_eq_None_iff)
  with Cons.IH [OF \<open>distinct (map fst ys)\<close>, of "AList.update k v xs"] y
  show ?case
    by (auto simp: update_conv' map_add_def fun_eq_iff split: option.splits)
qed

lemma spread_merge_objects:
  "distinct (map fst cf) \<Longrightarrow>
   map_of (spread_merge (JObj a xf) (JObj c cf)) = map_of xf ++ map_of cf"
  by (simp add: spread_merge_def map_of_foldl_update)

text \<open>
  Claim C6, as the code has it. \<^verbatim>\<open>update\<close> of the collection kind with a payload
  object whose \<^verbatim>\<open>at\<close> is a number replaces the element at that index with the
  payload's \<^verbatim>\<open>value\<close> when the index is in bounds, and leaves the state unchanged
  otherwise. With a payload object that has no numeric \<^verbatim>\<open>at\<close> and has \<^verbatim>\<open>id\<close> and
  \<^verbatim>\<open>changes\<close>, it finds the first element whose \<^verbatim>\<open>id\<close> is a primitive value
  strictly equal to the payload's (an \<^verbatim>\<open>id\<close> that is an object or an array is read
  from the draft as a proxy and matches nothing): when no element before it is
  \<^verbatim>\<open>null\<close> or \<^verbatim>\<open>undefined\<close>, that element is replaced by the object that merges
  \<^verbatim>\<open>changes\<close> onto it if it is an object, and the state is unchanged if it is not;
  when no element matches and none is \<^verbatim>\<open>null\<close> or \<^verbatim>\<open>undefined\<close>, the state is
  unchanged. All other elements and their order are unchanged. The merge is shallow: a key of \<^verbatim>\<open>changes\<close> takes the value \<^verbatim>\<open>changes\<close>
  gives it, every other key keeps the element's value.
\<close>

theorem array_update_correct:
  "(map_of fs ''at'' = Some (JNum at) \<longrightarrow>
      array_update fresh state (JObj r fs) =
        Inr (Next (if 0 \<le> at \<and> at < int (length state)
                   then state[nat at := prop_of (JObj r fs) ''value''] else state)))
   \<and> (typeof (prop_of (JObj r fs) ''at'') \<noteq> TNumber \<and>
       map_of fs ''id'' = Some pid \<and> map_of fs ''changes'' = Some changes \<longrightarrow>
        ((\<forall>item \<in> set state. \<not> nullish item \<and> \<not> draft_eq (prop_of item ''id'') pid) \<longrightarrow>
           array_update fresh state (JObj r fs) = Inr (Next state))
      \<and> ((\<forall>item \<in> set pre. \<not> nullish item \<and> \<not> draft_eq (prop_of item ''id'') pid) \<and>
          \<not> nullish x \<and> draft_eq (prop_of x ''id'') pid \<longrightarrow>
           array_update fresh (pre @ x # post) (JObj r fs) =
             Inr (Next (if typeof x = TObject
                        then pre @ JObj fresh (spread_merge x changes) # post
                        else pre @ x # post))))
   \<and> (distinct (map fst cf) \<longrightarrow>
        (\<forall>k. prop_of (JObj fresh (spread_merge (JObj a xf) (JObj c cf))) k =
              (if k \<in> fst ` set cf then prop_of (JObj c cf) k else prop_of (JObj a xf) k)))"
proof (intro conjI impI allI)
  assume "map_of fs ''at'' = Some (JNum at)"
  then show "array_update fresh state (JObj r fs) =
        Inr (Next (if 0 \<le> at \<and> at < int (length state)
                   then state[nat at := prop_of (JObj r fs) ''value''] else state))"
    by (auto simp: array_update_def in_object_def dest: map_of_SomeD intro: rev_image_eqI)
next
  assume h: "typeof (prop_of (JObj r fs) ''at'') \<noteq> TNumber \<and>
       map_of fs ''id'' = Some pid \<and> map_of fs ''changes'' = Some changes"
  then have keys: "in_object ''id'' (JObj r fs)" "in_object ''changes'' (JObj r fs)"
    by (auto simp: in_object_def dest!: map_of_SomeD intro: rev_image_eqI)
  assume "\<forall>item \<in> set state. \<not> nullish item \<and> \<not> draft_eq (prop_of item ''id'') pid"
  then show "array_update fresh state (JObj r fs) = Inr (Next state)"
    using h keys by (simp add: array_update_def findIndex_id_none)
next
  assume h: "typeof (prop_of (JObj r fs) ''at'') \<noteq> TNumber \<and>
       map_of fs ''id'' = Some pid \<and> map_of fs ''changes'' = Some changes"
  then have keys: "in_object ''id'' (JObj r fs)" "in_object ''changes'' (JObj r fs)"
    by (auto simp: in_object_def dest!: map_of_SomeD intro: rev_image_eqI)
  assume "(\<forall>item \<in> set pre. \<not> nullish item \<and> \<not> draft_eq (prop_of item ''id'') pid) \<and>
          \<not> nullish x \<and> draft_eq (prop_of x ''id'') pid"
  then have idx: "findIndex_id (pre @ x # post) pid (pre @ x # post) = Inr (Some (length pre))"
    and x: "\<not> nullish x"
    by (simp_all add: findIndex_id_first)
  from x have "x \<noteq> JNull" by auto
  then show "array_update fresh (pre @ x # post) (JObj r fs) =
             Inr (Next (if typeof x = TObject
                        then pre @ JObj fresh (spread_merge x changes) # post
                        else pre @ x # post))"
    using h keys idx by (simp add: array_update_def)
next
  fix k
  assume "distinct (map fst cf)"
  then show "prop_of (JObj fresh (spread_merge (JObj a xf) (JObj c cf))) k =
              (if k \<in> fst ` set cf then prop_of (JObj c cf) k else prop_of (JObj a xf) k)"
  proof (cases "map_of cf k")
    case None
    moreover from None have "k \<notin> fst ` set cf" by (simp add: map_of_eq_None_iff)
    ultimately show ?thesis
      using \<open>distinct (map fst cf)\<close> by (simp add: spread_merge_objects map_add_def)
  next
    case (Some v)
    moreover from Some have "k \<in> fst ` set cf" by (metis map_of_eq_None_iff option.distinct(1))
    ultimately show ?thesis
      using \<open>distinct (map fst cf)\<close> by (simp add: spread_merge_objects map_add_def)
  qed
qed

text \<open>
  The theorem at the collection of the test \<^verbatim>\<open>update by index and upsert by id work\<close>.
\<close>

theorem array_update_correct_witness:
  "array_update 0 [JObj 1 [(''id'', JStr ''a''), (''x'', JNum 1)], JObj 2 [(''id'', JStr ''b''), (''x'', JNum 2)]]
     (JObj 3 [(''at'', JNum 0), (''value'', JObj 4 [(''id'', JStr ''a''), (''x'', JNum 10)])])
   = Inr (Next [JObj 4 [(''id'', JStr ''a''), (''x'', JNum 10)], JObj 2 [(''id'', JStr ''b''), (''x'', JNum 2)]])
   \<and> array_update 9 [JObj 1 [(''id'', JStr ''a''), (''x'', JNum 1)], JObj 2 [(''id'', JStr ''b''), (''x'', JNum 2)]]
     (JObj 3 [(''id'', JStr ''b''), (''changes'', JObj 5 [(''x'', JNum 20)])])
   = Inr (Next [JObj 1 [(''id'', JStr ''a''), (''x'', JNum 1)], JObj 9 [(''id'', JStr ''b''), (''x'', JNum 20)]])
   \<and> array_update 9 [JObj 1 [(''id'', JStr ''a''), (''x'', JNum 1)]]
     (JObj 3 [(''id'', JStr ''b''), (''changes'', JObj 5 [(''x'', JNum 20)])])
   = Inr (Next [JObj 1 [(''id'', JStr ''a''), (''x'', JNum 1)]])"
proof (intro conjI)
  let ?a = "JObj 1 [(''id'', JStr ''a''), (''x'', JNum 1)]"
  let ?b = "JObj 2 [(''id'', JStr ''b''), (''x'', JNum 2)]"
  show "array_update 0 [?a, ?b]
     (JObj 3 [(''at'', JNum 0), (''value'', JObj 4 [(''id'', JStr ''a''), (''x'', JNum 10)])])
   = Inr (Next [JObj 4 [(''id'', JStr ''a''), (''x'', JNum 10)], ?b])"
    using array_update_correct [where fs = "[(''at'', JNum 0), (''value'', JObj 4 [(''id'', JStr ''a''), (''x'', JNum 10)])]"
        and at = 0 and state = "[?a, ?b]" and fresh = 0 and r = 3, THEN conjunct1]
    by simp
  show "array_update 9 [?a, ?b]
     (JObj 3 [(''id'', JStr ''b''), (''changes'', JObj 5 [(''x'', JNum 20)])])
   = Inr (Next [?a, JObj 9 [(''id'', JStr ''b''), (''x'', JNum 20)]])"
    using array_update_correct [where fs = "[(''id'', JStr ''b''), (''changes'', JObj 5 [(''x'', JNum 20)])]"
        and pid = "JStr ''b''" and changes = "JObj 5 [(''x'', JNum 20)]" and pre = "[?a]"
        and x = ?b and post = "[]" and fresh = 9 and r = 3,
        THEN conjunct2, THEN conjunct1]
    by (simp add: spread_merge_def)
  show "array_update 9 [?a]
     (JObj 3 [(''id'', JStr ''b''), (''changes'', JObj 5 [(''x'', JNum 20)])])
   = Inr (Next [?a])"
    using array_update_correct [where fs = "[(''id'', JStr ''b''), (''changes'', JObj 5 [(''x'', JNum 20)])]"
        and pid = "JStr ''b''" and changes = "JObj 5 [(''x'', JNum 20)]" and state = "[?a]"
        and fresh = 9 and r = 3,
        THEN conjunct2, THEN conjunct1]
    by simp
qed

text \<open>
  Claim C6 as stated has the state unchanged when no element matches, and the
  changes merged onto the first element whose \<^verbatim>\<open>id\<close> matches. The search reads
  \<^verbatim>\<open>item.id\<close> of every element up to the first match; on an element that is \<^verbatim>\<open>null\<close>
  it raises. An element whose \<^verbatim>\<open>id\<close> is the very array the payload has as \<^verbatim>\<open>id\<close> is
  not found, and nothing is merged onto it.
\<close>

theorem array_update_null_element_counterexample:
  "array_update 0 [JNull, JObj 1 [(''id'', JNum 1)]] (JObj 2 [(''id'', JNum 7), (''changes'', JObj 3 [])])
     = Inl TypeError
   \<and> strict_eq (prop_of (JObj 1 [(''id'', JArr 4 [JNum 1]), (''x'', JNum 1)]) ''id'') (JArr 4 [JNum 1])
   \<and> array_update 0 [JObj 1 [(''id'', JArr 4 [JNum 1]), (''x'', JNum 1)]]
       (JObj 2 [(''id'', JArr 4 [JNum 1]), (''changes'', JObj 3 [(''x'', JNum 2)])])
     = Inr (Next [JObj 1 [(''id'', JArr 4 [JNum 1]), (''x'', JNum 1)]])"
  by (simp add: array_update_def in_object_def get_prop_def from_base_def)


subsection \<open>\<^verbatim>\<open>increment\<close> and \<^verbatim>\<open>toggle\<close>\<close>

lemma has_prop_object: "has_prop (JObj r fs) f = Inr (map_of fs f \<noteq> None)"
  by (simp add: map_of_eq_None_iff)

lemma lookup_own: "entities state keyId = Some v \<Longrightarrow> lookup_entity state keyId = Own v"
  by (simp add: lookup_entity_def)

lemma lookup_not_own:
  "entities state keyId = None \<Longrightarrow>
   lookup_entity state keyId =
     (if keyId \<in> set OBJECT_PROTOTYPE_FUNCTIONS then Inherited_function
      else if keyId = ''__proto__'' then Prototype_object else Absent)"
  by (simp add: lookup_entity_def)

lemma increment_own_object:
  "(\<forall>n. map_of fs f = Some (JNum n) \<longrightarrow>
      safe_int n \<and> safe_int amount \<and> safe_int (n + amount)) \<Longrightarrow>
   increment_own state keyId (JObj r fs) (JStr f) (JNum amount) =
     Inr (Next (case map_of fs f of
                  Some (JNum n) \<Rightarrow>
                    state\<lparr>entities := (entities state)
                            (keyId \<mapsto> JObj r (AList.update f (JNum (n + amount)) fs))\<rparr>
                | _ \<Rightarrow> state))"
  by (simp add: increment_own_def has_prop_object add_numbers_def del: has_prop.simps
        split: option.splits jsval.splits)

lemma toggle_own_object:
  "toggle_own state keyId (JObj r fs) (JStr f) =
     Inr (Next (case map_of fs f of
                  Some (JBool b) \<Rightarrow>
                    state\<lparr>entities := (entities state)
                            (keyId \<mapsto> JObj r (AList.update f (JBool (\<not> b)) fs))\<rparr>
                | _ \<Rightarrow> state))"
  by (simp add: toggle_own_def has_prop_object del: has_prop.simps
        split: option.splits jsval.splits)

text \<open>
  Claim C7, as the code has it. \<^verbatim>\<open>increment\<close> with a payload object
  \<^verbatim>\<open>{id, field?, amount?}\<close> converts \<^verbatim>\<open>id\<close> to its string, takes \<^verbatim>\<open>value\<close> for an
  absent \<^verbatim>\<open>field\<close> and \<open>1\<close> for an absent \<^verbatim>\<open>amount\<close>. When the record of entities
  has an entity under the key, an object, it adds the amount to the named field of
  that entity exactly when the field holds a number, and otherwise leaves the state
  unchanged; the number, the amount and their sum are of magnitude below \<^verbatim>\<open>2^53\<close>.
  When the record has no entity under the key, the state is unchanged, unless the
  key is the name of a function every object inherits (\<^verbatim>\<open>constructor\<close>,
  \<^verbatim>\<open>toString\<close>, ...) and the field is \<^verbatim>\<open>length\<close>, \<^verbatim>\<open>arguments\<close> or \<^verbatim>\<open>caller\<close>.
  \<^verbatim>\<open>toggle\<close> with \<^verbatim>\<open>{id, field?}\<close> takes the same default and, under the same
  conditions on the key, negates the named field exactly when the field holds a
  boolean; otherwise the state is unchanged. In particular
  \<^verbatim>\<open>increment({id: "1", field: "value", amount: 5})\<close> on the entity
  \<^verbatim>\<open>{id: "1", value: 10}\<close> gives the value 15, and applied again gives 20.
\<close>

theorem increment_toggle_correct:
  "(toId (prop_of (JObj pr pf) ''id'') = Inr keyId \<and>
    (prop_of (JObj pr pf) ''field'' = JUndefined \<and> f = ''value'' \<or>
     prop_of (JObj pr pf) ''field'' = JStr f) \<and>
    (\<forall>v. entities state keyId = Some v \<longrightarrow> (\<exists>r fs. v = JObj r fs)) \<and>
    (entities state keyId = None \<and> keyId \<in> set OBJECT_PROTOTYPE_FUNCTIONS \<longrightarrow>
       f \<notin> {''length'', ''arguments'', ''caller''}) \<longrightarrow>
      ((prop_of (JObj pr pf) ''amount'' = JUndefined \<and> amount = 1 \<or>
        prop_of (JObj pr pf) ''amount'' = JNum amount) \<and>
       (\<forall>r fs n. entities state keyId = Some (JObj r fs) \<and> map_of fs f = Some (JNum n) \<longrightarrow>
          safe_int n \<and> safe_int amount \<and> safe_int (n + amount)) \<longrightarrow>
        entity_increment fresh state (JObj pr pf) =
          Inr (Next (case entities state keyId of
                       Some (JObj r fs) \<Rightarrow>
                         (case map_of fs f of
                            Some (JNum n) \<Rightarrow>
                              state\<lparr>entities := (entities state)
                                      (keyId \<mapsto> JObj r (AList.update f (JNum (n + amount)) fs))\<rparr>
                          | _ \<Rightarrow> state)
                     | _ \<Rightarrow> state))) \<and>
      entity_toggle fresh state (JObj pr pf) =
        Inr (Next (case entities state keyId of
                     Some (JObj r fs) \<Rightarrow>
                       (case map_of fs f of
                          Some (JBool b) \<Rightarrow>
                            state\<lparr>entities := (entities state)
                                    (keyId \<mapsto> JObj r (AList.update f (JBool (\<not> b)) fs))\<rparr>
                        | _ \<Rightarrow> state)
                   | _ \<Rightarrow> state)))
   \<and> entity_increment 0
        \<lparr>entities = [''1'' \<mapsto> JObj 1 [(''id'', JStr ''1''), (''value'', JNum 10)]], ids = [''1'']\<rparr>
        (JObj 2 [(''id'', JStr ''1''), (''field'', JStr ''value''), (''amount'', JNum 5)])
      = Inr (Next \<lparr>entities = [''1'' \<mapsto> JObj 1 [(''id'', JStr ''1''), (''value'', JNum 15)]],
                   ids = [''1'']\<rparr>)
   \<and> entity_increment 0
        \<lparr>entities = [''1'' \<mapsto> JObj 1 [(''id'', JStr ''1''), (''value'', JNum 15)]], ids = [''1'']\<rparr>
        (JObj 2 [(''id'', JStr ''1''), (''field'', JStr ''value''), (''amount'', JNum 5)])
      = Inr (Next \<lparr>entities = [''1'' \<mapsto> JObj 1 [(''id'', JStr ''1''), (''value'', JNum 20)]],
                   ids = [''1'']\<rparr>)"
proof (intro conjI impI)
  assume h: "toId (prop_of (JObj pr pf) ''id'') = Inr keyId \<and>
    (prop_of (JObj pr pf) ''field'' = JUndefined \<and> f = ''value'' \<or>
     prop_of (JObj pr pf) ''field'' = JStr f) \<and>
    (\<forall>v. entities state keyId = Some v \<longrightarrow> (\<exists>r fs. v = JObj r fs)) \<and>
    (entities state keyId = None \<and> keyId \<in> set OBJECT_PROTOTYPE_FUNCTIONS \<longrightarrow>
       f \<notin> {''length'', ''arguments'', ''caller''})"
  then have key: "toId (prop_of (or_empty (JObj pr pf)) ''id'') = Inr keyId"
    and field: "with_default (prop_of (or_empty (JObj pr pf)) ''field'') (JStr ''value'') = JStr f"
    by (auto simp: or_empty_def with_default_def)
  show "entity_toggle fresh state (JObj pr pf) =
        Inr (Next (case entities state keyId of
                     Some (JObj r fs) \<Rightarrow>
                       (case map_of fs f of
                          Some (JBool b) \<Rightarrow>
                            state\<lparr>entities := (entities state)
                                    (keyId \<mapsto> JObj r (AList.update f (JBool (\<not> b)) fs))\<rparr>
                        | _ \<Rightarrow> state)
                   | _ \<Rightarrow> state))"
  proof (cases "entities state keyId")
    case None
    with h show ?thesis
      unfolding entity_toggle_def Let_def key field
      by (simp add: lookup_not_own toggle_function_def unchanged_prototype_def)
  next
    case (Some v)
    with h obtain r fs where v: "v = JObj r fs" by blast
    show ?thesis
      unfolding entity_toggle_def Let_def key field
      using Some v by (simp add: lookup_own toggle_own_object)
  qed
  assume a: "(prop_of (JObj pr pf) ''amount'' = JUndefined \<and> amount = 1 \<or>
        prop_of (JObj pr pf) ''amount'' = JNum amount) \<and>
       (\<forall>r fs n. entities state keyId = Some (JObj r fs) \<and> map_of fs f = Some (JNum n) \<longrightarrow>
          safe_int n \<and> safe_int amount \<and> safe_int (n + amount))"
  then have amount:
    "with_default (prop_of (or_empty (JObj pr pf)) ''amount'') (JNum 1) = JNum amount"
    by (auto simp: or_empty_def with_default_def)
  show "entity_increment fresh state (JObj pr pf) =
          Inr (Next (case entities state keyId of
                       Some (JObj r fs) \<Rightarrow>
                         (case map_of fs f of
                            Some (JNum n) \<Rightarrow>
                              state\<lparr>entities := (entities state)
                                      (keyId \<mapsto> JObj r (AList.update f (JNum (n + amount)) fs))\<rparr>
                          | _ \<Rightarrow> state)
                     | _ \<Rightarrow> state))"
  proof (cases "entities state keyId")
    case None
    with h show ?thesis
      unfolding entity_increment_def Let_def key field amount
      by (simp add: lookup_not_own increment_function_def unchanged_prototype_def)
  next
    case (Some v)
    with h obtain r fs where v: "v = JObj r fs" by blast
    with a Some have "\<forall>n. map_of fs f = Some (JNum n) \<longrightarrow>
        safe_int n \<and> safe_int amount \<and> safe_int (n + amount)"
      by blast
    then show ?thesis
      unfolding entity_increment_def Let_def key field amount
      using Some v by (simp add: lookup_own increment_own_object)
  qed
qed (simp_all add: entity_increment_def or_empty_def with_default_def toId_def lookup_entity_def
       increment_own_def add_numbers_def safe_int_def)

text \<open>
  The theorem at the counter of the test \<^verbatim>\<open>increment and toggle work on entity
  fields\<close>: an increment with a numeric identifier and the two defaults, a toggle of
  \<^verbatim>\<open>active\<close>, and a toggle with an identifier the record does not have.
\<close>

theorem increment_toggle_correct_witness:
  "entity_increment 0
     \<lparr>entities = [''1'' \<mapsto> JObj 1 [(''id'', JStr ''1''), (''value'', JNum 10), (''active'', JBool True)]],
      ids = [''1'']\<rparr>
     (JObj 2 [(''id'', JNum 1)])
   = Inr (Next \<lparr>entities = [''1'' \<mapsto> JObj 1 [(''id'', JStr ''1''), (''value'', JNum 11), (''active'', JBool True)]],
                ids = [''1'']\<rparr>)
   \<and> entity_toggle 0
     \<lparr>entities = [''1'' \<mapsto> JObj 1 [(''id'', JStr ''1''), (''value'', JNum 10), (''active'', JBool True)]],
      ids = [''1'']\<rparr>
     (JObj 2 [(''id'', JStr ''1''), (''field'', JStr ''active'')])
   = Inr (Next \<lparr>entities = [''1'' \<mapsto> JObj 1 [(''id'', JStr ''1''), (''value'', JNum 10), (''active'', JBool False)]],
                ids = [''1'']\<rparr>)
   \<and> entity_toggle 0
     \<lparr>entities = [''1'' \<mapsto> JObj 1 [(''id'', JStr ''1''), (''value'', JNum 10), (''active'', JBool True)]],
      ids = [''1'']\<rparr>
     (JObj 2 [(''id'', JStr ''2''), (''field'', JStr ''active'')])
   = Inr (Next \<lparr>entities = [''1'' \<mapsto> JObj 1 [(''id'', JStr ''1''), (''value'', JNum 10), (''active'', JBool True)]],
                ids = [''1'']\<rparr>)"
proof (intro conjI)
  let ?s = "\<lparr>entities = [''1'' \<mapsto> JObj 1 [(''id'', JStr ''1''), (''value'', JNum 10), (''active'', JBool True)]],
      ids = [''1'']\<rparr>"
  show "entity_increment 0 ?s (JObj 2 [(''id'', JNum 1)])
   = Inr (Next \<lparr>entities = [''1'' \<mapsto> JObj 1 [(''id'', JStr ''1''), (''value'', JNum 11), (''active'', JBool True)]],
                ids = [''1'']\<rparr>)"
    using increment_toggle_correct [where pr = 2 and pf = "[(''id'', JNum 1)]" and keyId = "''1''"
        and f = "''value''" and amount = 1 and state = ?s and fresh = 0, THEN conjunct1]
    by (simp add: toId_def show_int_1 safe_int_def)
  show "entity_toggle 0 ?s (JObj 2 [(''id'', JStr ''1''), (''field'', JStr ''active'')])
   = Inr (Next \<lparr>entities = [''1'' \<mapsto> JObj 1 [(''id'', JStr ''1''), (''value'', JNum 10), (''active'', JBool False)]],
                ids = [''1'']\<rparr>)"
    using increment_toggle_correct [where pr = 2
        and pf = "[(''id'', JStr ''1''), (''field'', JStr ''active'')]" and keyId = "''1''"
        and f = "''active''" and state = ?s and fresh = 0, THEN conjunct1]
    by (simp add: toId_def)
  show "entity_toggle 0 ?s (JObj 2 [(''id'', JStr ''2''), (''field'', JStr ''active'')]) = Inr (Next ?s)"
    using increment_toggle_correct [where pr = 2
        and pf = "[(''id'', JStr ''2''), (''field'', JStr ''active'')]" and keyId = "''2''"
        and f = "''active''" and state = ?s and fresh = 0, THEN conjunct1]
    by (simp add: toId_def OBJECT_PROTOTYPE_FUNCTIONS_def)
qed

text \<open>
  Claim C7 as stated has the state unchanged whenever no entity with the identifier
  exists. The empty record has no entity under \<^verbatim>\<open>constructor\<close>, but the read
  \<^verbatim>\<open>state.entities["constructor"]\<close> finds the function every object inherits, whose
  \<^verbatim>\<open>length\<close> is a number that cannot be written: the increment raises.
\<close>

theorem increment_inherited_counterexample:
  "entities getEmptyEntityState ''constructor'' = None
   \<and> entity_increment 0 getEmptyEntityState
       (JObj 1 [(''id'', JStr ''constructor''), (''field'', JStr ''length'')])
     = Inl TypeError"
  by (simp add: entity_increment_def getEmptyEntityState_def or_empty_def with_default_def
        toId_def lookup_entity_def OBJECT_PROTOTYPE_FUNCTIONS_def increment_function_def)

subsection \<open>The invariant of the normalized-index kind is kept\<close>

lemma put_entity_invariant:
  "put_entity k entity state = Inr state' \<Longrightarrow> entity_invariant state \<Longrightarrow> entity_invariant state'"
  by (auto simp: entity_invariant_def put_entity_def write_entity_def split: if_splits)

lemma add_loop_invariant:
  "add_loop items state = Inr state' \<Longrightarrow> entity_invariant state \<Longrightarrow> entity_invariant state'"
proof (induction items arbitrary: state)
  case Nil
  then show ?case by simp
next
  case (Cons entity rest)
  from Cons.prems(1) obtain v k mid where "put_entity k entity state = Inr mid"
    and "add_loop rest mid = Inr state'"
    by (auto split: sum.splits)
  with Cons.IH [of mid] Cons.prems(2) show ?case
    by (blast intro: put_entity_invariant)
qed

lemma dom_foldl_delete: "dom (foldl (\<lambda>m k. m(k := None)) m ks) = dom m - set ks"
  by (induction ks arbitrary: m) auto

lemma delete_ids_invariant:
  "entity_invariant state \<Longrightarrow> entity_invariant (delete_ids ks state)"
  by (auto simp: entity_invariant_def delete_ids_def dom_foldl_delete)

lemma overwrite_invariant:
  "entity_invariant state \<Longrightarrow> entities state k = Some existing \<Longrightarrow>
   entity_invariant (state\<lparr>entities := (entities state)(k \<mapsto> v)\<rparr>)"
  by (auto simp: entity_invariant_def)

lemma write_own_invariant:
  "write_entity k v state = Inr state' \<Longrightarrow> entity_invariant state \<Longrightarrow>
   entities state k = Some existing \<Longrightarrow> entity_invariant state'"
  by (auto simp: write_entity_def entity_invariant_def split: if_splits)

lemma write_new_invariant:
  "write_entity k v state = Inr state' \<Longrightarrow> entity_invariant state \<Longrightarrow>
   entities state k = None \<Longrightarrow> \<not> entity_invariant state'"
  by (auto simp: write_entity_def entity_invariant_def split: if_splits)

lemma entity_add_invariant:
  "entity_add fresh state payload = Inr n \<Longrightarrow> entity_invariant state \<Longrightarrow>
   \<exists>state'. n = Next state' \<and> entity_invariant state'"
  by (auto simp: entity_add_def split: sum.splits dest: add_loop_invariant)

lemma entity_upsert_invariant:
  "entity_upsert fresh state payload = Inr n \<Longrightarrow> entity_invariant state \<Longrightarrow>
   \<exists>state'. n = Next state' \<and> entity_invariant state'"
  by (auto simp: entity_upsert_def upsert_loop_eq_add_loop split: sum.splits dest: add_loop_invariant)

lemma entity_addMany_invariant:
  "entity_addMany fresh state payload = Inr n \<Longrightarrow> entity_invariant state \<Longrightarrow>
   \<exists>state'. n = Next state' \<and> entity_invariant state'"
  by (auto simp: entity_addMany_def addMany_loop_eq_add_loop split: sum.splits if_splits
           dest: add_loop_invariant)

lemma entity_remove_invariant:
  "entity_remove fresh state payload = Inr n \<Longrightarrow> entity_invariant state \<Longrightarrow>
   \<exists>state'. n = Next state' \<and> entity_invariant state'"
  by (auto simp: entity_remove_def split: sum.splits intro: delete_ids_invariant)

lemma entity_removeMany_invariant:
  "entity_removeMany fresh state payload = Inr n \<Longrightarrow> entity_invariant state \<Longrightarrow>
   \<exists>state'. n = Next state' \<and> entity_invariant state'"
  by (auto simp: entity_removeMany_def split: sum.splits intro: delete_ids_invariant)

lemma entity_update_invariant:
  assumes "entity_update fresh state payload = Inr n" "entity_invariant state"
  shows "\<exists>state' k. n = Next state' \<and> toId (prop_of payload ''id'') = Inr k \<and>
           entity_invariant state' =
             (entities state k = None \<longrightarrow> k \<notin> set OBJECT_PROTOTYPE_FUNCTIONS)"
proof -
  from assms(1) obtain k where k: "toId (prop_of payload ''id'') = Inr k"
    and np: "\<not> nullish payload"
    by (auto simp: entity_update_def split: if_splits sum.splits)
  show ?thesis
  proof (cases "entities state k")
    case (Some existing)
    with assms k np show ?thesis
      by (auto simp: entity_update_def lookup_entity_def split: sum.splits if_splits
               dest: write_own_invariant)
  next
    case None
    show ?thesis
    proof (cases "k \<in> set OBJECT_PROTOTYPE_FUNCTIONS")
      case True
      then have "k \<noteq> ''__proto__''"
        by (auto simp: OBJECT_PROTOTYPE_FUNCTIONS_def)
      with True None assms k np obtain state' where "n = Next state'"
        and "write_entity k (JObj fresh (spread_onto [] (prop_of payload ''changes''))) state
               = Inr state'"
        by (auto simp: entity_update_def lookup_entity_def write_entity_def)
      with assms(2) None True k show ?thesis
        by (auto dest: write_new_invariant)
    next
      case False
      with None assms k np show ?thesis
        by (auto simp: entity_update_def lookup_entity_def write_entity_def
                 split: sum.splits if_splits)
    qed
  qed
qed

lemma entity_clear_invariant:
  "entity_clear fresh state payload = Inr n \<Longrightarrow> \<exists>state'. n = Next state' \<and> entity_invariant state'"
  by (auto simp: entity_clear_def entity_invariant_def)

lemma increment_own_invariant:
  "increment_own state k existing field amount = Inr n \<Longrightarrow> entity_invariant state \<Longrightarrow>
   entities state k = Some existing \<Longrightarrow> \<exists>state'. n = Next state' \<and> entity_invariant state'"
  unfolding increment_own_def
  by (auto split: sum.splits if_splits bool.splits jsval.splits intro: overwrite_invariant)

lemma toggle_own_invariant:
  "toggle_own state k existing field = Inr n \<Longrightarrow> entity_invariant state \<Longrightarrow>
   entities state k = Some existing \<Longrightarrow> \<exists>state'. n = Next state' \<and> entity_invariant state'"
  unfolding toggle_own_def
  by (auto split: sum.splits if_splits bool.splits jsval.splits intro: overwrite_invariant)

lemma entity_increment_invariant:
  assumes "entity_increment fresh state payload = Inr n" "entity_invariant state"
  shows "\<exists>state'. n = Next state' \<and> entity_invariant state'"
proof -
  from assms(1) obtain k where k: "toId (prop_of (or_empty payload) ''id'') = Inr k"
    by (auto simp: entity_increment_def Let_def split: sum.splits)
  show ?thesis
  proof (cases "entities state k")
    case (Some existing)
    with assms k show ?thesis
      by (auto simp: entity_increment_def Let_def lookup_entity_def
               dest: increment_own_invariant)
  next
    case None
    with assms k show ?thesis
      by (auto simp: entity_increment_def Let_def lookup_entity_def increment_function_def
            unchanged_prototype_def split: sum.splits if_splits)
  qed
qed

lemma entity_toggle_invariant:
  assumes "entity_toggle fresh state payload = Inr n" "entity_invariant state"
  shows "\<exists>state'. n = Next state' \<and> entity_invariant state'"
proof -
  from assms(1) obtain k where k: "toId (prop_of (or_empty payload) ''id'') = Inr k"
    by (auto simp: entity_toggle_def Let_def split: sum.splits)
  show ?thesis
  proof (cases "entities state k")
    case (Some existing)
    with assms k show ?thesis
      by (auto simp: entity_toggle_def Let_def lookup_entity_def
               dest: toggle_own_invariant)
  next
    case None
    with assms k show ?thesis
      by (auto simp: entity_toggle_def Let_def lookup_entity_def toggle_function_def
            unchanged_prototype_def split: sum.splits if_splits)
  qed
qed

lemma empty_invariant: "entity_invariant \<lparr>entities = Map.empty, ids = []\<rparr>"
  by (simp add: entity_invariant_def)

text \<open>
  Claim C2, as the code has it. From a state of the normalized-index kind whose
  identifier sequence has no duplicates and has exactly the keys of the mapping as
  members, every transition of the vocabulary other than \<^verbatim>\<open>set\<close> and \<^verbatim>\<open>update\<close>,
  with any payload, returns (when it returns) a state of the kind that satisfies the
  predicate again. So does \<^verbatim>\<open>update\<close>, provided the identifier of the payload has an
  entity in the mapping or is not the name of a function every object inherits
  (\<^verbatim>\<open>constructor\<close>, \<^verbatim>\<open>toString\<close>, ...). \<^verbatim>\<open>set\<close> returns the empty state, which
  satisfies the predicate, for a payload that is \<^verbatim>\<open>null\<close> or \<^verbatim>\<open>undefined\<close>, and
  otherwise installs the payload as it is: the result satisfies the predicate exactly
  when the payload does. A transition that writes under the identifier
  \<^verbatim>\<open>__proto__\<close>, which the mapping does not have, returns no state of the model.
\<close>

theorem entity_invariant_kept:
  "entity_invariant state \<and> entity_case nm = Some f \<and> f fresh state payload = Inr n \<longrightarrow>
     (nm \<noteq> ''set'' \<and> nm \<noteq> ''update'' \<longrightarrow> (\<exists>state'. n = Next state' \<and> entity_invariant state'))
   \<and> (nm = ''update'' \<longrightarrow>
        (\<exists>state' k. n = Next state' \<and> toId (prop_of payload ''id'') = Inr k \<and>
           ((entities state k = None \<longrightarrow> k \<notin> set OBJECT_PROTOTYPE_FUNCTIONS) \<longrightarrow>
              entity_invariant state')))
   \<and> (nm = ''set'' \<longrightarrow>
        n = (if nullish payload then Next \<lparr>entities = Map.empty, ids = []\<rparr> else Replaced payload) \<and>
        next_invariant n = (nullish payload \<or> next_invariant (Replaced payload)))"
proof (intro impI conjI; (elim conjE)?)
  assume inv: "entity_invariant state" and f: "entity_case nm = Some f"
    and run: "f fresh state payload = Inr n"
  {
    assume "nm \<noteq> ''set''" "nm \<noteq> ''update''"
    with f consider "f = entity_add" | "f = entity_remove"
      | "f = entity_clear" | "f = entity_addMany" | "f = entity_removeMany"
      | "f = entity_upsert" | "f = entity_increment" | "f = entity_toggle"
      by (auto simp: entity_case_def split: if_splits)
    then show "\<exists>state'. n = Next state' \<and> entity_invariant state'"
      using inv run
      by cases
        (blast dest: entity_add_invariant entity_remove_invariant
           entity_clear_invariant entity_addMany_invariant entity_removeMany_invariant
           entity_upsert_invariant entity_increment_invariant entity_toggle_invariant)+
  }
  {
    assume "nm = ''update''"
    with f have "f = entity_update" by (simp add: entity_case_def)
    with run inv show "\<exists>state' k. n = Next state' \<and> toId (prop_of payload ''id'') = Inr k \<and>
           ((entities state k = None \<longrightarrow> k \<notin> set OBJECT_PROTOTYPE_FUNCTIONS) \<longrightarrow>
              entity_invariant state')"
      using entity_update_invariant [of fresh state payload n] by blast
  }
  {
    assume "nm = ''set''"
    with f have "f = entity_set" by (simp add: entity_case_def)
    with run show "n = (if nullish payload then Next \<lparr>entities = Map.empty, ids = []\<rparr>
                         else Replaced payload)"
      by (auto simp: entity_set_def)
    then show "next_invariant n = (nullish payload \<or> next_invariant (Replaced payload))"
      by (auto simp: empty_invariant)
  }
qed

text \<open>
  Claim C2 as stated includes \<^verbatim>\<open>set\<close> and \<^verbatim>\<open>update\<close> with any payload. From the
  empty state, \<^verbatim>\<open>set\<close> with the payload \<^verbatim>\<open>{entities: {}, ids: ["a"]}\<close> installs a state
  whose identifier \<^verbatim>\<open>a\<close> has no entry in the mapping, and \<^verbatim>\<open>update\<close> with the payload
  \<^verbatim>\<open>{id: "constructor", changes: {}}\<close> reads the inherited function as the existing
  entity and writes an entry under \<^verbatim>\<open>constructor\<close>, which the identifier sequence
  does not have.
\<close>

theorem entity_set_breaks_invariant_counterexample:
  "entity_invariant getEmptyEntityState
   \<and> entity_case ''set'' = Some entity_set
   \<and> entity_set 0 getEmptyEntityState
        (JObj 1 [(''entities'', JObj 2 []), (''ids'', JArr 3 [JStr ''a''])])
      = Inr (Replaced (JObj 1 [(''entities'', JObj 2 []), (''ids'', JArr 3 [JStr ''a''])]))
   \<and> entity_state_of (JObj 1 [(''entities'', JObj 2 []), (''ids'', JArr 3 [JStr ''a''])])
      = Some \<lparr>entities = Map.empty, ids = [''a'']\<rparr>
   \<and> \<not> entity_invariant \<lparr>entities = Map.empty, ids = [''a'']\<rparr>
   \<and> \<not> next_invariant (Replaced (JObj 1 [(''entities'', JObj 2 []), (''ids'', JArr 3 [JStr ''a''])]))
   \<and> entity_case ''update'' = Some entity_update
   \<and> entity_update 7 getEmptyEntityState
        (JObj 1 [(''id'', JStr ''constructor''), (''changes'', JObj 2 [])])
      = Inr (Next \<lparr>entities = [''constructor'' \<mapsto> JObj 7 []], ids = []\<rparr>)
   \<and> \<not> entity_invariant \<lparr>entities = [''constructor'' \<mapsto> JObj 7 []], ids = []\<rparr>"
  by (simp add: entity_invariant_def getEmptyEntityState_def entity_case_def entity_set_def
        entity_state_of_def entity_update_def toId_def lookup_entity_def
        OBJECT_PROTOTYPE_FUNCTIONS_def write_entity_def spread_onto_def)

text \<open>
  The theorem at the index of the test \<^verbatim>\<open>add upserts by id\<close>: a second entity is
  added to a state that holds one, the first is then removed, and the second updated.
\<close>

theorem entity_invariant_kept_witness:
  "entity_invariant \<lparr>entities = [''1'' \<mapsto> JObj 1 [(''id'', JStr ''1'')]], ids = [''1'']\<rparr>
   \<and> entity_add 0 \<lparr>entities = [''1'' \<mapsto> JObj 1 [(''id'', JStr ''1'')]], ids = [''1'']\<rparr>
        (JObj 2 [(''id'', JStr ''2'')])
      = Inr (Next \<lparr>entities = [''1'' \<mapsto> JObj 1 [(''id'', JStr ''1'')],
                                 ''2'' \<mapsto> JObj 2 [(''id'', JStr ''2'')]],
                    ids = [''1'', ''2'']\<rparr>)
   \<and> entity_invariant \<lparr>entities = [''1'' \<mapsto> JObj 1 [(''id'', JStr ''1'')],
                                     ''2'' \<mapsto> JObj 2 [(''id'', JStr ''2'')]],
                        ids = [''1'', ''2'']\<rparr>
   \<and> (\<exists>state'. entity_remove 0
          \<lparr>entities = [''1'' \<mapsto> JObj 1 [(''id'', JStr ''1'')], ''2'' \<mapsto> JObj 2 [(''id'', JStr ''2'')]],
           ids = [''1'', ''2'']\<rparr> (JStr ''1'') = Inr (Next state')
        \<and> ids state' = [''2''] \<and> entity_invariant state')
   \<and> entity_invariant \<lparr>entities = [''2'' \<mapsto> JObj 9 [(''id'', JStr ''2''), (''name'', JStr ''B'')]],
                        ids = [''2'']\<rparr>"
proof -
  let ?s1 = "\<lparr>entities = [''1'' \<mapsto> JObj 1 [(''id'', JStr ''1'')]], ids = [''1'']\<rparr>"
  let ?s2 = "\<lparr>entities = [''1'' \<mapsto> JObj 1 [(''id'', JStr ''1'')],
                            ''2'' \<mapsto> JObj 2 [(''id'', JStr ''2'')]],
               ids = [''1'', ''2'']\<rparr>"
  let ?s3 = "delete_ids [''1''] ?s2"
  have inv1: "entity_invariant ?s1"
    by (simp add: entity_invariant_def)
  have add: "entity_add 0 ?s1 (JObj 2 [(''id'', JStr ''2'')]) = Inr (Next ?s2)"
    by (simp add: entity_add_def get_prop_def toId_def put_entity_def write_entity_def)
  have "entity_case ''add'' = Some entity_add"
    by (simp add: entity_case_def)
  with entity_invariant_kept [of ?s1 "''add''" entity_add 0 "JObj 2 [(''id'', JStr ''2'')]" "Next ?s2"]
    inv1 add
  have inv2: "entity_invariant ?s2" by simp
  have remove: "entity_remove 0 ?s2 (JStr ''1'') = Inr (Next ?s3)"
    by (simp add: entity_remove_def toId_def)
  have "entity_case ''remove'' = Some entity_remove"
    by (simp add: entity_case_def)
  with entity_invariant_kept [of ?s2 "''remove''" entity_remove 0 "JStr ''1''" "Next ?s3"]
    inv2 remove
  have inv3: "entity_invariant ?s3" by simp
  have "ids ?s3 = [''2'']" by (simp add: delete_ids_def)
  with remove inv3 have "\<exists>state'. entity_remove 0 ?s2 (JStr ''1'') = Inr (Next state')
        \<and> ids state' = [''2''] \<and> entity_invariant state'"
    by blast
  moreover
  let ?s4 = "\<lparr>entities = [''2'' \<mapsto> JObj 2 [(''id'', JStr ''2'')]], ids = [''2'']\<rparr>"
  let ?s5 = "\<lparr>entities = [''2'' \<mapsto> JObj 9 [(''id'', JStr ''2''), (''name'', JStr ''B'')]],
               ids = [''2'']\<rparr>"
  let ?p = "JObj 3 [(''id'', JNum 2), (''changes'', JObj 4 [(''name'', JStr ''B'')])]"
  have inv4: "entity_invariant ?s4"
    by (simp add: entity_invariant_def)
  have two: "show_int 2 = ''2''"
    by (simp add: show_int_def show_nat.simps digit_char_def)
  have update: "entity_update 9 ?s4 ?p = Inr (Next ?s5)"
    by (simp add: entity_update_def toId_def safe_int_def two lookup_entity_def write_entity_def
          spread_merge_def)
  have "entity_case ''update'' = Some entity_update"
    by (simp add: entity_case_def)
  with entity_invariant_kept [of ?s4 "''update''" entity_update 9 ?p "Next ?s5"] inv4 update
  have "entity_invariant ?s5"
    by (simp add: toId_def safe_int_def two)
  ultimately show ?thesis
    using inv1 add inv2 by (intro conjI)
qed


subsection \<open>Totality\<close>








lemma findIndex_id_bound:
  "findIndex_id base pid state = Inr (Some idx) \<Longrightarrow> idx < length state"
  by (induction state arbitrary: idx base) (auto split: sum.splits if_splits option.splits)





















end
